theory Spec2Isabelle
  imports Complex_Main
begin

section \<open>JavaScript values and arrays\<close>

text \<open>
  The rules engine of goods-sort is TypeScript. Objects are shared by reference, so products
  and shelves live in stores and arrays hold references. A fault thrown by the runtime
  (reading a property of \<open>undefined\<close>) is the error value \<open>TypeError\<close>.
  Times are JavaScript numbers; they are modelled as reals, counts as naturals and slot
  indices as integers (the guards of the source reject the negative ones).
\<close>

datatype error = TypeError

type_synonym pref = nat
type_synonym sref = nat

text \<open>
  One element of a \<open>ShelfProducts\<close> array, type \<open>(Product | null)[]\<close>. Reading past the end
  of an array, or reading a hole left by a write past the end, gives \<open>undefined\<close>.
\<close>

datatype cell = Undefined | Null | Item pref

definition js_get :: "cell list \<Rightarrow> int \<Rightarrow> cell" where
  "js_get xs i = (if 0 \<le> i \<and> i < int (length xs) then xs ! nat i else Undefined)"

text \<open>\<open>xs[i] = v\<close> for \<open>i \<ge> 0\<close>: a write past the end extends the array, leaving holes.\<close>

definition js_set :: "cell list \<Rightarrow> nat \<Rightarrow> cell \<Rightarrow> cell list" where
  "js_set xs i v =
     (if i < length xs then xs[i := v]
      else xs @ replicate (i - length xs) Undefined @ [v])"

text \<open>\<open>peek\<close> of the utility library: the last element, \<open>undefined\<close> on an empty array.\<close>

definition peek :: "'a list \<Rightarrow> 'a option" where
  "peek xs = (if xs = [] then None else Some (last xs))"

text \<open>\<open>clamp(a, min, max)\<close> of the utility library; \<open>clamp_inf\<close> is the call with
  \<open>max = Infinity\<close>.\<close>

definition clamp :: "real \<Rightarrow> real \<Rightarrow> real \<Rightarrow> real" where
  "clamp a lo hi = (if a < lo then lo else if a > hi then hi else a)"

definition clamp_inf :: "real \<Rightarrow> real \<Rightarrow> real" where
  "clamp_inf a lo = (if a < lo then lo else a)"

text \<open>\<open>Array.prototype.some\<close> with a callback that may throw: it stops at the first
  element whose callback throws or returns true.\<close>

fun some_throwing :: "('a \<Rightarrow> error + bool) \<Rightarrow> 'a list \<Rightarrow> error + bool" where
  "some_throwing f [] = Inr False"
| "some_throwing f (x # xs) =
     (case f x of
        Inl e \<Rightarrow> Inl e
      | Inr True \<Rightarrow> Inr True
      | Inr False \<Rightarrow> some_throwing f xs)"

section \<open>Product\<close>

text \<open>
  The fields of class \<open>Product\<close> that the rules read or write. Its position, size, rotation,
  velocity, hover and landing fields only feed drawing and pointer hit-testing and are left
  out. \<open>product_id\<close> is the field \<open>id\<close>.
\<close>

record Product =
  product_id :: string
  matches :: "string list"
  locked :: bool
  dragging :: bool
  disappearing :: bool
  startedDisappearing :: bool
  finishedDisappearing :: bool
  disappearingTime :: real
  disappearingDelay :: real

definition DISAPPEARING_ANIMATION_TIME :: real where
  "DISAPPEARING_ANIMATION_TIME = 5 / 10"

definition matchesProduct :: "Product \<Rightarrow> Product \<Rightarrow> bool" where
  "matchesProduct this other = (product_id other \<in> set (matches this))"

definition disappear :: "real \<Rightarrow> Product \<Rightarrow> Product" where
  "disappear delay this =
     (if disappearing this then this
      else this\<lparr>disappearing := True,
                startedDisappearing := False,
                finishedDisappearing := False,
                disappearingTime := DISAPPEARING_ANIMATION_TIME,
                disappearingDelay := delay\<rparr>)"

text \<open>
  \<open>Product.update\<close>, without the easing of position, rotation and scale. \<open>grab\<close> is the
  condition of its first \<open>if\<close>: the pointer was pressed on the product, the shelf lets the
  product of this slot be picked up, and the product is not locked. Then the product
  starts to be dragged (the caller, \<open>update_products\<close> below, models the call of
  \<open>level.startDraggingProduct\<close>). The rest advances the disappearing animation.
\<close>

definition Product_update :: "real \<Rightarrow> bool \<Rightarrow> Product \<Rightarrow> Product" where
  "Product_update dt grab this =
     (let p0 = (if grab then this\<lparr>dragging := True\<rparr> else this)
      in if disappearing p0 then
           (let p1 = p0\<lparr>disappearingDelay := clamp_inf (disappearingDelay p0 - dt) 0\<rparr>;
                p2 = (if \<not> startedDisappearing p1 \<and> disappearingDelay p1 \<le> 0
                      then p1\<lparr>startedDisappearing := True\<rparr> else p1);
                p3 = (if startedDisappearing p2
                      then p2\<lparr>disappearingTime :=
                             clamp (disappearingTime p2 - dt) 0 DISAPPEARING_ANIMATION_TIME\<rparr>
                      else p2)
            in if disappearingTime p3 \<le> 0 then p3\<lparr>finishedDisappearing := True\<rparr> else p3)
         else p0)"

section \<open>Shelves\<close>

text \<open>
  The class of a shelf object. \<open>BaseShelf\<close> is class \<open>Shelf\<close> itself; the other six
  extend it. Supply, Locking and Disappearing shelves wrap an inner shelf.
\<close>

datatype ShelfClass =
    BaseShelf | ClosingShelf | DisplayShelf | DeepShelf
  | SupplyShelf | LockingShelf | DisappearingShelf

text \<open>
  The constructors of the wrappers replace a capability method on the instance of the inner
  shelf. \<open>SupplyPatch\<close> is the closure that answers false; \<open>LockingPatch l\<close> is the closure
  that answers false while wrapper \<open>l\<close> is locked and calls the replaced method otherwise.
\<close>

datatype patch = SupplyPatch | LockingPatch sref

text \<open>
  \<open>LockingModeData\<close>, with the product id already replaced by a product object as
  \<open>LockingShelf.fromData\<close> does. The fields are, in order:
  \<open>ToggleTimer time initiallyLocked finalCountdownUnlock\<close>, \<open>CountdownTimer time\<close>,
  \<open>MatchProducts product n\<close>, \<open>CompleteShelves n\<close>, \<open>CompleteShelf shelfReference\<close>,
  \<open>PlaceProduct shelfReference slot latch inverted product\<close>.
\<close>

datatype LockingMode =
    ToggleTimer real bool "real option"
  | CountdownTimer real
  | MatchProducts "pref option" int
  | CompleteShelves int
  | CompleteShelf string
  | PlaceProduct string int bool bool "pref option"

text \<open>
  One record for the objects of all seven classes: the fields of \<open>Shelf\<close>, then those a
  subclass adds (\<open>closed\<close>: ClosingShelf; \<open>completed\<close>, \<open>allowed\<close>: DisplayShelf; \<open>layers\<close>,
  \<open>changingLayers\<close>, \<open>changingLayersTime\<close>: DeepShelf; \<open>shelf\<close>: the wrappers; \<open>locking\<close>
  and \<open>shelf_locked\<close>, the field \<open>locked\<close>: LockingShelf). A field of another class is
  never read. Offsets, positions and the animation timers of Closing, Display, Locking and
  Disappearing shelves only feed drawing and are left out.
\<close>

record Shelf =
  kind :: ShelfClass
  products :: "cell list"
  slotCount :: nat
  matchCount :: nat
  ignore :: bool
  reference :: "string option"
  statsUpdated :: bool
  disposed :: bool
  canDropPatches :: "patch list"
  canPickUpPatches :: "patch list"
  closed :: bool
  completed :: bool
  allowed :: "pref option list"
  layers :: "cell list list"
  changingLayers :: bool
  changingLayersTime :: real
  shelf :: "sref option"
  locking :: "LockingMode option"
  shelf_locked :: bool

definition DEFAULT_SLOT_COUNT :: nat where "DEFAULT_SLOT_COUNT = 3"
definition DEFAULT_MATCH_COUNT :: nat where "DEFAULT_MATCH_COUNT = 3"
definition DISAPPEAR_DELAY :: real where "DISAPPEAR_DELAY = 2 / 10"
definition CHANGING_LAYERS_ANIMATION_TIME :: real where
  "CHANGING_LAYERS_ANIMATION_TIME = 5 / 10"

section \<open>Level\<close>

text \<open>
  \<open>Level.stats\<close>. The three tables indexed by a string are association lists; an entry of
  \<open>productMatches\<close> is (product, total), of \<open>completedShelves\<close> (shelf, completed), of
  \<open>productPlacements\<close> (shelf, slot, product). A value of \<open>currentProductPlacement\<close> is read
  by destructuring \<open>{shelf, products}\<close>; either may be \<open>undefined\<close>, as both are for the value
  the constructor of Level stores.
\<close>

record Stats =
  time :: real
  productMatches :: "(string \<times> pref \<times> nat) list"
  totalMatches :: nat
  completedShelves :: "(string \<times> sref \<times> bool) list"
  totalCompletedShelves :: nat
  productPlacements :: "(sref \<times> int \<times> pref) list"
  currentProductPlacement :: "(string \<times> sref option \<times> cell list option) list"

record Level =
  timeLimit :: "real option"
  shelves :: "sref list"
  draggingProduct :: "(sref \<times> int \<times> pref) option"
  stats :: Stats

text \<open>The objects of a running level: the products, the shelves and the level itself.\<close>

record World =
  heap :: "pref \<Rightarrow> Product"
  store :: "sref \<Rightarrow> Shelf"
  level :: Level

section \<open>Shelf: capabilities and slots\<close>

text \<open>\<open>Shelf.canPickUpProductAtIndex\<close> and \<open>Shelf.canDropProductAtIndex\<close>; neither reads
  its product argument.\<close>

definition Shelf_canPickUpProductAtIndex :: "Shelf \<Rightarrow> int \<Rightarrow> bool" where
  "Shelf_canPickUpProductAtIndex this index =
     (if index < 0 \<or> index \<ge> int (slotCount this) then False
      else if js_get (products this) index = Null then False
      else True)"

definition Shelf_canDropProductAtIndex :: "Shelf \<Rightarrow> int \<Rightarrow> bool" where
  "Shelf_canDropProductAtIndex this index =
     (if index < 0 \<or> index \<ge> int (slotCount this) then False
      else if js_get (products this) index \<noteq> Null then False
      else True)"

text \<open>The method each class declares: Closing and Display shelves refuse once closed or
  completed, the wrappers always refuse, Shelf and DeepShelf use the method of Shelf.\<close>

definition class_canPickUpProductAtIndex :: "Shelf \<Rightarrow> int \<Rightarrow> bool" where
  "class_canPickUpProductAtIndex this index =
     (case kind this of
        ClosingShelf \<Rightarrow> if closed this then False else Shelf_canPickUpProductAtIndex this index
      | DisplayShelf \<Rightarrow>
          if completed this then False else Shelf_canPickUpProductAtIndex this index
      | SupplyShelf \<Rightarrow> False
      | LockingShelf \<Rightarrow> False
      | DisappearingShelf \<Rightarrow> False
      | _ \<Rightarrow> Shelf_canPickUpProductAtIndex this index)"

definition class_canDropProductAtIndex :: "Shelf \<Rightarrow> int \<Rightarrow> bool" where
  "class_canDropProductAtIndex this index =
     (case kind this of
        ClosingShelf \<Rightarrow> if closed this then False else Shelf_canDropProductAtIndex this index
      | DisplayShelf \<Rightarrow>
          if completed this then False else Shelf_canDropProductAtIndex this index
      | SupplyShelf \<Rightarrow> False
      | LockingShelf \<Rightarrow> False
      | DisappearingShelf \<Rightarrow> False
      | _ \<Rightarrow> Shelf_canDropProductAtIndex this index)"

text \<open>A patched method: the most recent patch is the head of the list.\<close>

fun patched :: "(sref \<Rightarrow> Shelf) \<Rightarrow> patch list \<Rightarrow> bool \<Rightarrow> bool" where
  "patched st [] original = original"
| "patched st (SupplyPatch # ps) original = False"
| "patched st (LockingPatch l # ps) original =
     (if shelf_locked (st l) then False else patched st ps original)"

definition canPickUpProductAtIndex :: "(sref \<Rightarrow> Shelf) \<Rightarrow> Shelf \<Rightarrow> int \<Rightarrow> bool" where
  "canPickUpProductAtIndex st this index =
     patched st (canPickUpPatches this) (class_canPickUpProductAtIndex this index)"

definition canDropProductAtIndex :: "(sref \<Rightarrow> Shelf) \<Rightarrow> Shelf \<Rightarrow> int \<Rightarrow> bool" where
  "canDropProductAtIndex st this index =
     patched st (canDropPatches this) (class_canDropProductAtIndex this index)"

text \<open>
  \<open>Shelf.addProductAtIndex\<close>, \<open>Shelf.removeProductAtIndex\<close> and \<open>Shelf.lockProductAtIndex\<close>.
  Each returns the shelf (or the products) after the call and the value the method
  returns: \<open>removeProductAtIndex\<close> the cell it read, \<open>lockProductAtIndex\<close> \<open>None\<close> for null.
\<close>

definition Shelf_addProductAtIndex :: "Shelf \<Rightarrow> int \<Rightarrow> pref \<Rightarrow> Shelf \<times> bool" where
  "Shelf_addProductAtIndex this index product =
     (if index < 0 \<or> index \<ge> int (slotCount this) then (this, False)
      else if js_get (products this) index \<noteq> Null then (this, False)
      else (this\<lparr>products := js_set (products this) (nat index) (Item product),
                 statsUpdated := False\<rparr>, True))"

definition Shelf_removeProductAtIndex :: "Shelf \<Rightarrow> int \<Rightarrow> Shelf \<times> cell" where
  "Shelf_removeProductAtIndex this index =
     (if index < 0 \<or> index \<ge> int (slotCount this) then (this, Null)
      else (this\<lparr>products := js_set (products this) (nat index) Null,
                 statsUpdated := False\<rparr>, js_get (products this) index))"


section \<open>DeepShelf: slots\<close>

text \<open>\<open>DeepShelf.addProductAtIndex\<close> and \<open>DeepShelf.removeProductAtIndex\<close> write the slot of
  \<open>products\<close> and of the top layer; they leave \<open>statsUpdated\<close> alone.\<close>

definition set_top :: "cell list list \<Rightarrow> nat \<Rightarrow> cell \<Rightarrow> cell list list" where
  "set_top ls i v = (if ls = [] then ls else butlast ls @ [js_set (last ls) i v])"

definition DeepShelf_addProductAtIndex :: "Shelf \<Rightarrow> int \<Rightarrow> pref \<Rightarrow> Shelf \<times> bool" where
  "DeepShelf_addProductAtIndex this index product =
     (if index < 0 \<or> index \<ge> int (slotCount this) then (this, False)
      else if js_get (products this) index \<noteq> Null then (this, False)
      else if length (layers this) = 0 then (this, False)
      else (this\<lparr>products := js_set (products this) (nat index) (Item product),
                 layers := set_top (layers this) (nat index) (Item product)\<rparr>, True))"

definition DeepShelf_removeProductAtIndex :: "Shelf \<Rightarrow> int \<Rightarrow> Shelf \<times> cell" where
  "DeepShelf_removeProductAtIndex this index =
     (if index < 0 \<or> index \<ge> int (slotCount this) then (this, Null)
      else if length (layers this) = 0 then (this, Null)
      else (this\<lparr>products := js_set (products this) (nat index) Null,
                 layers := set_top (layers this) (nat index) Null\<rparr>,
            js_get (products this) index))"


text \<open>The three methods as a call on a shelf object dispatches them.\<close>

definition addProductAtIndex :: "Shelf \<Rightarrow> int \<Rightarrow> pref \<Rightarrow> Shelf \<times> bool" where
  "addProductAtIndex this index product =
     (if kind this = DeepShelf then DeepShelf_addProductAtIndex this index product
      else Shelf_addProductAtIndex this index product)"

definition removeProductAtIndex :: "Shelf \<Rightarrow> int \<Rightarrow> Shelf \<times> cell" where
  "removeProductAtIndex this index =
     (if kind this = DeepShelf then DeepShelf_removeProductAtIndex this index
      else Shelf_removeProductAtIndex this index)"


section \<open>Shelf: the matching algorithm\<close>

text \<open>
  \<open>Shelf.growMatchingGroup\<close>. \<open>includes\<close> compares object references. Every call that
  recurses has added to the group a product of \<open>availableProducts\<close> that was not in it.
\<close>

function growMatchingGroup ::
  "(pref \<Rightarrow> Product) \<Rightarrow> nat \<Rightarrow> pref list \<Rightarrow> pref list \<Rightarrow> pref list"
where
  "growMatchingGroup h mc currentGroup availableProducts =
     (if length currentGroup \<ge> mc then currentGroup
      else
        (case filter (\<lambda>product. product \<notin> set currentGroup \<and>
                      list_all (\<lambda>groupProduct. matchesProduct (h product) (h groupProduct))
                        currentGroup)
                availableProducts of
           [] \<Rightarrow> currentGroup
         | m # _ \<Rightarrow> growMatchingGroup h mc (currentGroup @ [m]) availableProducts))"
  by pat_completeness auto
termination
proof (relation "measure (\<lambda>(h, mc, g, av). length (filter (\<lambda>p. p \<notin> set g) av))")
  show "wf (measure (\<lambda>(h, mc, g, av). length (filter (\<lambda>p. p \<notin> set g) av)))"
    by simp
next
  fix h :: "pref \<Rightarrow> Product" and mc :: nat and g av :: "pref list" and m ms
  assume eq: "filter (\<lambda>product. product \<notin> set g \<and>
                 list_all (\<lambda>groupProduct. matchesProduct (h product) (h groupProduct)) g) av
              = m # ms"
  have "m \<in> set (filter (\<lambda>product. product \<notin> set g \<and>
                 list_all (\<lambda>groupProduct. matchesProduct (h product) (h groupProduct)) g) av)"
    unfolding eq by simp
  then have m: "m \<in> set av" "m \<notin> set g"
    by auto
  have "length (filter (\<lambda>p. p \<notin> set (g @ [m])) av) < length (filter (\<lambda>p. p \<notin> set g) av)"
  proof -
    have a: "filter (\<lambda>p. p \<notin> set (g @ [m])) av
             = filter (\<lambda>p. p \<noteq> m) (filter (\<lambda>p. p \<notin> set g) av)"
      by (induction av) auto
    have b: "m \<in> set (filter (\<lambda>p. p \<notin> set g) av)"
      using m by simp
    have "length (filter (\<lambda>p. p \<noteq> m) (filter (\<lambda>p. p \<notin> set g) av))
          < length (filter (\<lambda>p. p \<notin> set g) av)"
      by (rule length_filter_less [OF b]) simp
    then show ?thesis
      by (simp only: a)
  qed
  then show "((h, mc, g @ [m], av), (h, mc, g, av))
             \<in> measure (\<lambda>(h, mc, g, av). length (filter (\<lambda>p. p \<notin> set g) av))"
    by simp
qed

declare growMatchingGroup.simps [simp del]

text \<open>\<open>Shelf.findMatchingGroups\<close>: every product in turn is the seed of a group.\<close>

definition findMatchingGroups ::
  "(pref \<Rightarrow> Product) \<Rightarrow> nat \<Rightarrow> pref list \<Rightarrow> pref list list"
where
  "findMatchingGroups h mc ps =
     map (take mc)
       (filter (\<lambda>group. length group \<ge> mc)
          (map (\<lambda>startProduct. growMatchingGroup h mc [startProduct] ps) ps))"

text \<open>The products of a shelf that are neither null nor disappearing; \<open>filter\<close> skips holes.\<close>

fun validProducts :: "(pref \<Rightarrow> Product) \<Rightarrow> cell list \<Rightarrow> pref list" where
  "validProducts h [] = []"
| "validProducts h (Item p # cs) =
     (if \<not> disappearing (h p) then p # validProducts h cs else validProducts h cs)"
| "validProducts h (c # cs) = validProducts h cs"

text \<open>\<open>Shelf.checkForMatches\<close> returns \<open>{found, matches}\<close>; \<open>matches\<close> is the first group, and
  \<open>undefined\<close> (\<open>None\<close>) when there is none.\<close>

definition checkForMatches :: "(pref \<Rightarrow> Product) \<Rightarrow> Shelf \<Rightarrow> bool \<times> pref list option" where
  "checkForMatches h this =
     (let allMatches = findMatchingGroups h (matchCount this) (validProducts h (products this))
      in (length allMatches > 0, case allMatches of [] \<Rightarrow> None | g # _ \<Rightarrow> Some g))"

section \<open>DisplayShelf: the match check\<close>

text \<open>
  \<open>DisplayShelf.checkForMatches\<close>. The loop runs over the entries of \<open>allowed\<close>;
  \<open>DisplayShelf_scan\<close> is the loop from entry \<open>index\<close> on, with the matches pushed so far.
\<close>

fun DisplayShelf_scan ::
  "(pref \<Rightarrow> Product) \<Rightarrow> cell list \<Rightarrow> nat \<Rightarrow> pref option list \<Rightarrow> pref list
   \<Rightarrow> bool \<times> pref list"
where
  "DisplayShelf_scan h ps index [] acc = (True, acc)"
| "DisplayShelf_scan h ps index (a # rest) acc =
     (case (a, js_get ps (int index)) of
        (None, Null) \<Rightarrow> DisplayShelf_scan h ps (Suc index) rest acc
      | (Some al, Item p) \<Rightarrow>
          if matchesProduct (h p) (h al)
          then DisplayShelf_scan h ps (Suc index) rest (acc @ [p])
          else (False, [])
      | _ \<Rightarrow> (False, []))"

definition DisplayShelf_checkForMatches ::
  "(pref \<Rightarrow> Product) \<Rightarrow> Shelf \<Rightarrow> bool \<times> pref list"
where
  "DisplayShelf_checkForMatches h this =
     DisplayShelf_scan h (products this) 0 (allowed this) []"

section \<open>Shelf.update\<close>

text \<open>\<open>every\<close> skips holes, so a layer or a products array is empty when it holds no
  product.\<close>

definition layerIsEmpty :: "cell list \<Rightarrow> bool" where
  "layerIsEmpty layer = list_all (\<lambda>c. case c of Item p \<Rightarrow> False | _ \<Rightarrow> True) layer"

definition Shelf_shelfIsComplete :: "Shelf \<Rightarrow> bool" where
  "Shelf_shelfIsComplete this = layerIsEmpty (products this)"

definition DeepShelf_shelfIsComplete :: "Shelf \<Rightarrow> bool" where
  "DeepShelf_shelfIsComplete this = list_all layerIsEmpty (layers this)"

text \<open>
  \<open>productMatches[id].total++\<close>. The table is a plain object, so an id it has no entry
  for is looked up in \<open>Object.prototype\<close>: for the name of one of its members the
  increment lands on that built-in object and the table is left as it was, for any other
  id the lookup gives \<open>undefined\<close> and the increment throws.
\<close>

definition Object_prototype_members :: "string list" where
  "Object_prototype_members =
     [''constructor'', ''hasOwnProperty'', ''isPrototypeOf'', ''propertyIsEnumerable'',
      ''toLocaleString'', ''toString'', ''valueOf'', ''__proto__'', ''__defineGetter__'',
      ''__defineSetter__'', ''__lookupGetter__'', ''__lookupSetter__'']"

fun increment_total ::
  "string \<Rightarrow> (string \<times> pref \<times> nat) list \<Rightarrow> error + (string \<times> pref \<times> nat) list"
where
  "increment_total k [] =
     (if k \<in> set Object_prototype_members then Inr [] else Inl TypeError)"
| "increment_total k ((k', p, n) # es) =
     (if k = k' then Inr ((k', p, Suc n) # es)
      else case increment_total k es of
             Inl e \<Rightarrow> Inl e
           | Inr es' \<Rightarrow> Inr ((k', p, n) # es'))"

fun record_matches :: "(pref \<Rightarrow> Product) \<Rightarrow> pref list \<Rightarrow> Stats \<Rightarrow> error + Stats" where
  "record_matches h [] st = Inr st"
| "record_matches h (p # ps) st =
     (case increment_total (product_id (h p)) (productMatches st) of
        Inl e \<Rightarrow> Inl e
      | Inr pm \<Rightarrow>
          record_matches h ps (st\<lparr>productMatches := pm, totalMatches := Suc (totalMatches st)\<rparr>))"

text \<open>\<open>matches.forEach((product, index) => product.disappear(index * DISAPPEAR_DELAY))\<close>.\<close>

fun disappear_all :: "nat \<Rightarrow> pref list \<Rightarrow> (pref \<Rightarrow> Product) \<Rightarrow> (pref \<Rightarrow> Product)" where
  "disappear_all index [] h = h"
| "disappear_all index (p # ps) h =
     disappear_all (Suc index) ps (h(p := disappear (real index * DISAPPEAR_DELAY) (h p)))"

text \<open>
  \<open>products.forEach((product, index) => product?.update(dt, level, camera, this, index))\<close>
  on shelf \<open>r\<close>, over the products with their indices. \<open>pressed p\<close> says whether the
  pointer was pressed on product \<open>p\<close> in this tick, an input of the model. A product that
  is grabbed becomes the dragged product of the level.
\<close>

definition indexed :: "'a list \<Rightarrow> ('a \<times> nat) list" where
  "indexed xs = zip xs [0..<length xs]"

fun update_products ::
  "real \<Rightarrow> (pref \<Rightarrow> bool) \<Rightarrow> (sref \<Rightarrow> Shelf) \<Rightarrow> sref \<Rightarrow> (cell \<times> nat) list
   \<Rightarrow> (pref \<Rightarrow> Product) \<times> Level \<Rightarrow> (pref \<Rightarrow> Product) \<times> Level"
where
  "update_products dt pressed st r [] hl = hl"
| "update_products dt pressed st r ((Item p, index) # cs) hl =
     (let h = fst hl; lv = snd hl;
          grab = (pressed p \<and> canPickUpProductAtIndex st (st r) (int index) \<and> \<not> locked (h p))
      in update_products dt pressed st r cs
           (h(p := Product_update dt grab (h p)),
            if grab then lv\<lparr>draggingProduct := Some (r, int index, p)\<rparr> else lv))"
| "update_products dt pressed st r ((c, index) # cs) hl = update_products dt pressed st r cs hl"

definition remove_finished :: "(pref \<Rightarrow> Product) \<Rightarrow> cell \<Rightarrow> cell" where
  "remove_finished h c =
     (case c of Item p \<Rightarrow> if finishedDisappearing (h p) then Null else c | _ \<Rightarrow> c)"

text \<open>
  \<open>Shelf.update\<close> runs on the objects of class Shelf and, called as \<open>super.update\<close>, of
  DeepShelf; the other classes override it without calling it. \<open>update_match\<close> is the
  constant \<open>match\<close> of that tick, computed after the products that finished disappearing
  have been removed.
\<close>

definition update_match ::
  "real \<Rightarrow> (pref \<Rightarrow> bool) \<Rightarrow> sref \<Rightarrow> World \<Rightarrow> bool \<times> pref list option"
where
  "update_match dt pressed r w =
     (let this = store w r;
          h1 = fst (update_products dt pressed (store w) r (indexed (products this))
                      (heap w, level w))
      in checkForMatches h1 (this\<lparr>products := map (remove_finished h1) (products this)\<rparr>))"

text \<open>The two blocks of \<open>Shelf.update\<close> that follow the match check: the products of a
  found group are set disappearing, each after its own delay; and, unless the statistics
  of the shelf are up to date, the match and the completion of the shelf are counted.
  \<open>shelfIsComplete\<close> is the method of the class of the object.\<close>

definition schedule_disappear ::
  "bool \<times> pref list option \<Rightarrow> (pref \<Rightarrow> Product) \<Rightarrow> error + (pref \<Rightarrow> Product)"
where
  "schedule_disappear match h =
     (if fst match then
        (case snd match of None \<Rightarrow> Inl TypeError | Some g \<Rightarrow> Inr (disappear_all 0 g h))
      else Inr h)"

definition update_stats ::
  "bool \<times> pref list option \<Rightarrow> (pref \<Rightarrow> Product) \<Rightarrow> Shelf \<Rightarrow> Stats \<Rightarrow> error + Shelf \<times> Stats"
where
  "update_stats match h this st =
     (if \<not> statsUpdated this then
        (case (if fst match then
                 (case snd match of None \<Rightarrow> Inl TypeError | Some g \<Rightarrow> record_matches h g st)
               else Inr st) of
           Inl e \<Rightarrow> Inl e
         | Inr st1 \<Rightarrow>
             (let this2 = (if fst match then this\<lparr>statsUpdated := True\<rparr> else this);
                  complete = (if kind this2 = DeepShelf then DeepShelf_shelfIsComplete this2
                              else Shelf_shelfIsComplete this2)
              in Inr (if complete then this2\<lparr>statsUpdated := True\<rparr> else this2,
                      if complete
                      then st1\<lparr>totalCompletedShelves := Suc (totalCompletedShelves st1)\<rparr>
                      else st1)))
      else Inr (this, st))"

definition Shelf_update ::
  "real \<Rightarrow> (pref \<Rightarrow> bool) \<Rightarrow> sref \<Rightarrow> World \<Rightarrow> error + World"
where
  "Shelf_update dt pressed r w =
     (let this = store w r;
          hl = update_products dt pressed (store w) r (indexed (products this))
                 (heap w, level w);
          h1 = fst hl;
          lv1 = snd hl;
          this1 = this\<lparr>products := map (remove_finished h1) (products this)\<rparr>;
          match = checkForMatches h1 this1
      in case schedule_disappear match h1 of
           Inl e \<Rightarrow> Inl e
         | Inr h2 \<Rightarrow>
             (case update_stats match h2 this1 (stats lv1) of
                Inl e \<Rightarrow> Inl e
              | Inr (this3, st2) \<Rightarrow>
                  Inr (w\<lparr>heap := h2, store := (store w)(r := this3),
                        level := lv1\<lparr>stats := st2\<rparr>\<rparr>)))"

section \<open>DeepShelf.update\<close>

text \<open>The setter \<open>positionImmediate\<close>, called on the products of the layers below the top
  one, clears their \<open>dragging\<close> flag.\<close>

fun settle_products :: "cell list \<Rightarrow> (pref \<Rightarrow> Product) \<Rightarrow> (pref \<Rightarrow> Product)" where
  "settle_products [] h = h"
| "settle_products (Item p # cs) h = settle_products cs (h(p := (h p)\<lparr>dragging := False\<rparr>))"
| "settle_products (c # cs) h = settle_products cs h"

definition DeepShelf_update ::
  "real \<Rightarrow> (pref \<Rightarrow> bool) \<Rightarrow> sref \<Rightarrow> World \<Rightarrow> error + World"
where
  "DeepShelf_update dt pressed r w =
     (case Shelf_update dt pressed r w of
        Inl e \<Rightarrow> Inl e
      | Inr w1 \<Rightarrow>
          (let this = store w1 r;
               h1 = fold settle_products (butlast (layers this)) (heap w1);
               this1 = this\<lparr>layers := map (map (remove_finished h1)) (layers this)\<rparr>;
               this2 = (case peek (layers this1) of
                          None \<Rightarrow> this1
                        | Some currentLayer \<Rightarrow>
                            if layerIsEmpty currentLayer \<and> \<not> changingLayers this1
                            then this1\<lparr>changingLayers := True,
                                       changingLayersTime := CHANGING_LAYERS_ANIMATION_TIME\<rparr>
                            else this1);
               this3 = this2\<lparr>changingLayersTime :=
                                clamp (changingLayersTime this2 - dt) 0
                                  CHANGING_LAYERS_ANIMATION_TIME\<rparr>;
               this4 = (if changingLayers this3 \<and> changingLayersTime this3 \<le> 0 then
                          (let ls = (if length (layers this3) > 1 then butlast (layers this3)
                                     else layers this3)
                           in this3\<lparr>layers := ls,
                                    products := (case peek ls of
                                                   Some l \<Rightarrow> l
                                                 | None \<Rightarrow> replicate (slotCount this3) Null),
                                    changingLayers := False,
                                    statsUpdated := False\<rparr>)
                        else this3)
           in Inr (w1\<lparr>heap := h1, store := (store w1)(r := this4)\<rparr>)))"

section \<open>Constructors\<close>

text \<open>
  The object the constructor of Shelf leaves: its parameter properties and the field
  initialisers of the classes.
\<close>

definition new_Shelf ::
  "ShelfClass \<Rightarrow> cell list \<Rightarrow> nat \<Rightarrow> nat \<Rightarrow> bool \<Rightarrow> string option \<Rightarrow> Shelf"
where
  "new_Shelf k ps sc mc ign ref =
     \<lparr>kind = k, products = ps, slotCount = sc, matchCount = mc, ignore = ign,
      reference = ref, statsUpdated = False, disposed = False,
      canDropPatches = [], canPickUpPatches = [],
      closed = False, completed = False, allowed = [], layers = [],
      changingLayers = False, changingLayersTime = 0,
      shelf = None, locking = None, shelf_locked = False\<rparr>"

text \<open>
  A constructor call \<open>new C(level, ...)\<close> that creates object \<open>r\<close>. Shelf, ClosingShelf,
  DisplayShelf and DeepShelf push the new object onto \<open>level.shelves\<close> (\<open>addToLevel\<close>); the
  slot and match counts are arguments, and nothing relates them to the length of the
  products array.
\<close>

definition Shelf_constructor ::
  "sref \<Rightarrow> ShelfClass \<Rightarrow> cell list \<Rightarrow> nat \<Rightarrow> nat \<Rightarrow> bool \<Rightarrow> string option \<Rightarrow> bool
   \<Rightarrow> World \<Rightarrow> World"
where
  "Shelf_constructor r k ps sc mc ign ref addToLevel w =
     w\<lparr>store := (store w)(r := new_Shelf k ps sc mc ign ref),
       level := (if addToLevel then (level w)\<lparr>shelves := shelves (level w) @ [r]\<rparr>
                 else level w)\<rparr>"

definition DisplayShelf_constructor ::
  "sref \<Rightarrow> pref option list \<Rightarrow> cell list \<Rightarrow> nat \<Rightarrow> nat \<Rightarrow> bool \<Rightarrow> string option
   \<Rightarrow> bool \<Rightarrow> World \<Rightarrow> World"
where
  "DisplayShelf_constructor r al ps sc mc ign ref addToLevel w =
     (let w1 = Shelf_constructor r DisplayShelf ps sc mc ign ref addToLevel w
      in w1\<lparr>store := (store w1)(r := (store w1 r)\<lparr>allowed := al\<rparr>)\<rparr>)"

definition DeepShelf_constructor ::
  "sref \<Rightarrow> cell list list \<Rightarrow> nat \<Rightarrow> nat \<Rightarrow> bool \<Rightarrow> string option \<Rightarrow> World \<Rightarrow> World"
where
  "DeepShelf_constructor r ls sc mc ign ref w =
     (let w1 = Shelf_constructor r DeepShelf
                 (case peek ls of Some l \<Rightarrow> l | None \<Rightarrow> replicate sc Null)
                 sc mc ign ref True w
      in w1\<lparr>store := (store w1)(r := (store w1 r)\<lparr>layers := ls\<rparr>)\<rparr>)"

text \<open>
  The wrappers first patch the inner shelf \<open>i\<close>, then call
  \<open>super(level, [], offset, undefined, undefined, true, undefined, false)\<close>: no products, the
  default slot and match counts, ignored, no reference, not pushed onto \<open>level.shelves\<close>.
\<close>

definition SupplyShelf_constructor :: "sref \<Rightarrow> sref \<Rightarrow> World \<Rightarrow> World" where
  "SupplyShelf_constructor r i w =
     (let w1 = w\<lparr>store := (store w)(i := (store w i)\<lparr>canDropPatches :=
                    SupplyPatch # canDropPatches (store w i)\<rparr>)\<rparr>;
          w2 = Shelf_constructor r SupplyShelf [] DEFAULT_SLOT_COUNT DEFAULT_MATCH_COUNT
                 True None False w1
      in w2\<lparr>store := (store w2)(r := (store w2 r)\<lparr>shelf := Some i\<rparr>)\<rparr>)"

definition LockingShelf_constructor :: "sref \<Rightarrow> sref \<Rightarrow> LockingMode \<Rightarrow> World \<Rightarrow> World" where
  "LockingShelf_constructor r i m w =
     (let w1 = w\<lparr>store := (store w)(i := (store w i)\<lparr>
                    canDropPatches := LockingPatch r # canDropPatches (store w i),
                    canPickUpPatches := LockingPatch r # canPickUpPatches (store w i)\<rparr>)\<rparr>;
          w2 = Shelf_constructor r LockingShelf [] DEFAULT_SLOT_COUNT DEFAULT_MATCH_COUNT
                 True None False w1
      in w2\<lparr>store := (store w2)(r := (store w2 r)\<lparr>shelf := Some i, locking := Some m\<rparr>)\<rparr>)"

definition DisappearingShelf_constructor :: "sref \<Rightarrow> sref \<Rightarrow> World \<Rightarrow> World" where
  "DisappearingShelf_constructor r i w =
     (let w1 = Shelf_constructor r DisappearingShelf [] DEFAULT_SLOT_COUNT DEFAULT_MATCH_COUNT
                 True None False w
      in w1\<lparr>store := (store w1)(r := (store w1 r)\<lparr>shelf := Some i\<rparr>)\<rparr>)"

section \<open>LockingShelf.shelfIsLocked\<close>

text \<open>
  The branch for \<open>place-product\<close> compares the slot with \<open>this.mode.slot\<close>. No class of the
  hierarchy (Actor, Shelf, LockingShelf) declares or assigns a property \<open>mode\<close>; the
  condition is the field \<open>locking\<close>. So \<open>this.mode\<close> is \<open>undefined\<close>, and evaluating
  \<open>this.mode.slot\<close> throws.
\<close>

definition this_mode :: "Shelf \<Rightarrow> LockingMode option" where
  "this_mode this = None"

definition this_mode_slot :: "Shelf \<Rightarrow> error + int option" where
  "this_mode_slot this =
     (case this_mode this of
        None \<Rightarrow> Inl TypeError
      | Some m \<Rightarrow> Inr (case m of PlaceProduct ref slot latch inverted product \<Rightarrow> Some slot
                                | _ \<Rightarrow> None))"

text \<open>\<open>this.locking.product === undefined || product.matchesProduct(this.locking.product)\<close>.\<close>

definition qualifies :: "(pref \<Rightarrow> Product) \<Rightarrow> pref option \<Rightarrow> pref \<Rightarrow> bool" where
  "qualifies h required product =
     (case required of None \<Rightarrow> True | Some q \<Rightarrow> matchesProduct (h product) (h q))"

text \<open>The callback of \<open>productPlacements.some\<close> in latch mode.\<close>

definition latch_test ::
  "World \<Rightarrow> Shelf \<Rightarrow> string \<Rightarrow> pref option \<Rightarrow> sref \<times> int \<times> pref \<Rightarrow> error + bool"
where
  "latch_test w this ref required entry =
     (case entry of (s, slot, product) \<Rightarrow>
        if reference (store w s) = Some ref then
          (case this_mode_slot this of
             Inl e \<Rightarrow> Inl e
           | Inr ms \<Rightarrow> Inr (Some slot = ms \<and> qualifies (heap w) required product))
        else Inr False)"

text \<open>The callbacks of the two nested \<open>some\<close> calls in non-latch mode; the inner one skips
  the holes of the products array.\<close>

definition slot_test ::
  "World \<Rightarrow> Shelf \<Rightarrow> pref option \<Rightarrow> cell \<times> nat \<Rightarrow> error + bool"
where
  "slot_test w this required entry =
     (case entry of (c, index) \<Rightarrow>
        (case c of
           Item product \<Rightarrow>
             (case this_mode_slot this of
                Inl e \<Rightarrow> Inl e
              | Inr ms \<Rightarrow> Inr (Some (int index) = ms \<and> qualifies (heap w) required product))
         | _ \<Rightarrow> Inr False))"

definition current_test ::
  "World \<Rightarrow> Shelf \<Rightarrow> string \<Rightarrow> pref option \<Rightarrow> string \<times> sref option \<times> cell list option
   \<Rightarrow> error + bool"
where
  "current_test w this ref required entry =
     (case entry of (key, so, pso) \<Rightarrow>
        (case so of
           None \<Rightarrow> Inl TypeError
         | Some s \<Rightarrow>
             if reference (store w s) = Some ref then
               (case pso of
                  None \<Rightarrow> Inl TypeError
                | Some ps \<Rightarrow>
                    some_throwing (slot_test w this required)
                      (filter (\<lambda>(c, index). c \<noteq> Undefined) (zip ps [0..<length ps])))
             else Inr False))"

text \<open>\<open>LockingShelf.shelfIsLocked\<close>: the value assigned to \<open>locked\<close> on every tick. A
  division by a toggle period of zero gives NaN or an infinity, whose remainder is NaN.\<close>

definition shelfIsLocked :: "World \<Rightarrow> Shelf \<Rightarrow> error + bool" where
  "shelfIsLocked w this =
     (let st = stats (level w) in
      case locking this of
        None \<Rightarrow> Inl TypeError
      | Some (ToggleTimer t initiallyLocked finalCountdownUnlock) \<Rightarrow>
          (case (finalCountdownUnlock, timeLimit (level w)) of
             (Some f, Some limit) \<Rightarrow>
               if limit - time st \<le> f then Inr False
               else Inr (t \<noteq> 0 \<and>
                         \<lfloor>time st / t + (if initiallyLocked then 0 else 5 / 10)\<rfloor> mod 2 = 0)
           | _ \<Rightarrow> Inr (t \<noteq> 0 \<and>
                       \<lfloor>time st / t + (if initiallyLocked then 0 else 5 / 10)\<rfloor> mod 2 = 0))
      | Some (CountdownTimer t) \<Rightarrow> Inr (time st > t)
      | Some (MatchProducts product n) \<Rightarrow>
          (case product of
             Some q \<Rightarrow>
               Inr (length (filter (\<lambda>(k, p, total). matchesProduct (heap w q) (heap w p) \<and>
                                      int total \<ge> n) (productMatches st)) > 0)
           | None \<Rightarrow> Inr (int (totalMatches st) \<ge> n))
      | Some (CompleteShelves n) \<Rightarrow> Inr (int (totalCompletedShelves st) \<ge> n)
      | Some (CompleteShelf ref) \<Rightarrow>
          Inr (case map_of (completedShelves st) ref of
                 None \<Rightarrow> False
               | Some (s, c) \<Rightarrow> c)
      | Some (PlaceProduct ref slot latch inverted product) \<Rightarrow>
          (case (if latch then some_throwing (latch_test w this ref product)
                                 (productPlacements st)
                 else some_throwing (current_test w this ref product)
                        (currentProductPlacement st)) of
             Inl e \<Rightarrow> Inl e
           | Inr lck \<Rightarrow> Inr (if inverted then \<not> lck else lck)))"

section \<open>Level: placement resolution\<close>

text \<open>
  The axis-aligned bounding boxes and the distance between their centres come from the
  positions of the objects and from a geometry library. They are parameters of the model:
  \<open>overlaps s i\<close> says whether the box of the dragged product intersects that of slot \<open>i\<close>
  of shelf \<open>s\<close>, \<open>dst s i\<close> is the distance between the two centres.

  \<open>Shelf.findShelfSlot\<close> sorts the eligible, overlapping slots by distance; the sort is
  stable. The classes Shelf, ClosingShelf, DisplayShelf and DeepShelf use it, the wrappers
  answer \<open>{valid: false}\<close>. A valid answer is (slotIndex, product, distance).
\<close>

definition Shelf_findShelfSlot ::
  "(sref \<Rightarrow> Shelf) \<Rightarrow> (nat \<Rightarrow> bool) \<Rightarrow> (nat \<Rightarrow> real) \<Rightarrow> Shelf \<Rightarrow> (nat \<times> cell \<times> real) option"
where
  "Shelf_findShelfSlot st ov ds this =
     (case sort_key ds
             (filter ov
                (filter (\<lambda>i. canDropProductAtIndex st this (int i)) [0..<slotCount this])) of
        [] \<Rightarrow> None
      | closestSlot # _ \<Rightarrow>
          Some (closestSlot, js_get (products this) (int closestSlot), ds closestSlot))"

definition findShelfSlot ::
  "(sref \<Rightarrow> Shelf) \<Rightarrow> (nat \<Rightarrow> bool) \<Rightarrow> (nat \<Rightarrow> real) \<Rightarrow> Shelf \<Rightarrow> (nat \<times> cell \<times> real) option"
where
  "findShelfSlot st ov ds this =
     (case kind this of
        SupplyShelf \<Rightarrow> None
      | LockingShelf \<Rightarrow> None
      | DisappearingShelf \<Rightarrow> None
      | _ \<Rightarrow> Shelf_findShelfSlot st ov ds this)"

text \<open>\<open>Level.isValidDropPosition\<close>: the valid answers of the shelves of the level, in the
  order of \<open>level.shelves\<close>, sorted by distance; a valid answer is (shelf, slotIndex).\<close>

fun drop_results ::
  "(sref \<Rightarrow> Shelf) \<Rightarrow> (sref \<Rightarrow> nat \<Rightarrow> bool) \<Rightarrow> (sref \<Rightarrow> nat \<Rightarrow> real) \<Rightarrow> sref list
   \<Rightarrow> (sref \<times> nat \<times> real) list"
where
  "drop_results st overlaps dst [] = []"
| "drop_results st overlaps dst (s # ss) =
     (case findShelfSlot st (overlaps s) (dst s) (st s) of
        None \<Rightarrow> drop_results st overlaps dst ss
      | Some (slotIndex, product, distance) \<Rightarrow>
          (s, slotIndex, distance) # drop_results st overlaps dst ss)"

definition isValidDropPosition ::
  "(sref \<Rightarrow> nat \<Rightarrow> bool) \<Rightarrow> (sref \<Rightarrow> nat \<Rightarrow> real) \<Rightarrow> World \<Rightarrow> (sref \<times> nat) option"
where
  "isValidDropPosition overlaps dst w =
     (case sort_key (\<lambda>(s, slotIndex, distance). distance)
             (drop_results (store w) overlaps dst (shelves (level w))) of
        [] \<Rightarrow> None
      | (s, slotIndex, distance) # _ \<Rightarrow> Some (s, slotIndex))"

text \<open>\<open>if (result.shelf.reference)\<close>: a reference that is present and not the empty
  string.\<close>

definition truthy :: "string option \<Rightarrow> bool" where
  "truthy ref = (case ref of None \<Rightarrow> False | Some r \<Rightarrow> r \<noteq> [])"

text \<open>The two calls of \<open>Level.finishDraggingProduct\<close> on a valid drop, and the entry it
  appends to the placement log.\<close>

definition place ::
  "sref \<Rightarrow> int \<Rightarrow> pref \<Rightarrow> sref \<Rightarrow> nat \<Rightarrow> World \<Rightarrow> World"
where
  "place origin originSlot product dest destSlot w =
     (let st1 = (store w)(origin := fst (removeProductAtIndex (store w origin) originSlot));
          st2 = st1(dest := fst (addProductAtIndex (st1 dest) (int destSlot) product))
      in w\<lparr>store := st2,
           level := (if truthy (reference (st2 dest))
                     then (level w)\<lparr>stats := (stats (level w))\<lparr>productPlacements :=
                            productPlacements (stats (level w)) @
                              [(dest, int destSlot, product)]\<rparr>\<rparr>
                     else level w)\<rparr>)"

definition finishDraggingProduct ::
  "(sref \<Rightarrow> nat \<Rightarrow> bool) \<Rightarrow> (sref \<Rightarrow> nat \<Rightarrow> real) \<Rightarrow> World \<Rightarrow> World"
where
  "finishDraggingProduct overlaps dst w =
     (case draggingProduct (level w) of
        None \<Rightarrow> w
      | Some (origin, originSlot, product) \<Rightarrow>
          (let w1 = (case isValidDropPosition overlaps dst w of
                       Some (dest, destSlot) \<Rightarrow> place origin originSlot product dest destSlot w
                     | None \<Rightarrow> w)
           in w1\<lparr>heap := (heap w1)(product := (heap w1 product)\<lparr>dragging := False\<rparr>),
                 level := (level w1)\<lparr>draggingProduct := None\<rparr>\<rparr>))"

section \<open>Auxiliary predicates and example objects\<close>

text \<open>Every member of a group matches every member that precedes it.\<close>

definition later_match :: "(pref \<Rightarrow> Product) \<Rightarrow> pref list \<Rightarrow> bool" where
  "later_match h g =
     (\<forall>i j. i < j \<and> j < length g \<longrightarrow> matchesProduct (h (g ! j)) (h (g ! i)))"

text \<open>A product as the factory creates it: nothing set but its id and its matches.\<close>

definition some_product :: "string \<Rightarrow> string list \<Rightarrow> Product" where
  "some_product i ms =
     \<lparr>product_id = i, matches = ms, locked = False, dragging = False,
      disappearing = False, startedDisappearing = False, finishedDisappearing = False,
      disappearingTime = 0, disappearingDelay = 0\<rparr>"

text \<open>A heap of apples, each matching apples; and a heap where product 0 is an A that
  matches nothing and every other product is a B that matches A.\<close>

definition apples :: "pref \<Rightarrow> Product" where
  "apples p = some_product ''apple'' [''apple'']"

definition asym_heap :: "pref \<Rightarrow> Product" where
  "asym_heap p = (if p = 0 then some_product ''A'' [] else some_product ''B'' [''A''])"

text \<open>A level with nothing in it, and the world around it: every product an apple, every
  shelf an empty shelf of three slots.\<close>

definition no_stats :: Stats where
  "no_stats = \<lparr>time = 0, productMatches = [], totalMatches = 0, completedShelves = [],
               totalCompletedShelves = 0, productPlacements = [], currentProductPlacement = []\<rparr>"

definition no_level :: Level where
  "no_level = \<lparr>timeLimit = None, shelves = [], draggingProduct = None, stats = no_stats\<rparr>"

definition blank_world :: World where
  "blank_world =
     \<lparr>heap = apples,
      store = (\<lambda>r. new_Shelf BaseShelf [Null, Null, Null] 3 3 False None),
      level = no_level\<rparr>"

text \<open>The world after \<open>n\<close> shelves have been counted as completed.\<close>

definition counted_world :: "nat \<Rightarrow> World" where
  "counted_world n =
     blank_world\<lparr>level := no_level\<lparr>stats := no_stats\<lparr>totalCompletedShelves := n\<rparr>\<rparr>\<rparr>"

text \<open>The LockingShelf object 2 that wraps shelf 1 with the given condition.\<close>

definition locking_shelf :: "LockingMode \<Rightarrow> Shelf" where
  "locking_shelf m = store (LockingShelf_constructor 2 1 m blank_world) 2"

text \<open>A world where shelf 1 has the reference A and holds product 0 in slot 0, after the
  player placed it there: the placement is in the log and in the snapshot of the current
  placements.\<close>

definition placed_world :: World where
  "placed_world =
     blank_world\<lparr>
       store := (store blank_world)
                  (1 := new_Shelf BaseShelf [Item 0, Null, Null] 3 3 False (Some ''A'')),
       level := no_level\<lparr>shelves := [1],
                  stats := no_stats\<lparr>
                    productPlacements := [(1, 0, 0)],
                    currentProductPlacement := [(''A'', Some 1, Some [Item 0, Null, Null])]\<rparr>\<rparr>\<rparr>"

text \<open>A slot agrees with its allowed product: both are null, or both are products and the
  occupant matches the allowed one.\<close>

definition slot_agrees :: "(pref \<Rightarrow> Product) \<Rightarrow> pref option \<Rightarrow> cell \<Rightarrow> bool" where
  "slot_agrees h a c =
     ((a = None \<and> c = Null) \<or>
      (\<exists>q p. a = Some q \<and> c = Item p \<and> matchesProduct (h p) (h q)))"

text \<open>Products A (objects 0 and 10), B (objects 1 and 11) and C (the others), each matching
  its own kind; and a display shelf whose allowed products are [A, null, B].\<close>

definition fruit :: "pref \<Rightarrow> Product" where
  "fruit p = (if p = 0 \<or> p = 10 then some_product ''A'' [''A'']
              else if p = 1 \<or> p = 11 then some_product ''B'' [''B'']
              else some_product ''C'' [''C''])"

definition display_shelf :: "cell list \<Rightarrow> Shelf" where
  "display_shelf ps =
     store (DisplayShelf_constructor 1 [Some 10, None, Some 11] ps 3 3 False None True
              blank_world) 1"

text \<open>A display shelf of three slots with the given allowed products; and products A and
  B that match each other but not their own kind.\<close>

definition display_shelf_of :: "pref option list \<Rightarrow> cell list \<Rightarrow> Shelf" where
  "display_shelf_of al ps =
     store (DisplayShelf_constructor 1 al ps 3 3 False None True blank_world) 1"

definition pairs :: "pref \<Rightarrow> Product" where
  "pairs p = (if p = 0 \<or> p = 10 then some_product ''A'' [''B'']
              else some_product ''B'' [''A''])"



text \<open>Shelves as their constructors leave them: a shelf of three slots given all three,
  a shelf and a deep shelf of three slots given one product only, and a supply shelf
  around shelf 1.\<close>

definition built3 :: Shelf where
  "built3 = store (Shelf_constructor 1 BaseShelf [Item 0, Null, Null] 3 3 False None True
                     blank_world) 1"

definition short_shelf :: Shelf where
  "short_shelf = store (Shelf_constructor 1 BaseShelf [Item 0] 3 3 False None True
                          blank_world) 1"


definition supply_wrapper :: Shelf where
  "supply_wrapper = store (SupplyShelf_constructor 2 1 blank_world) 2"

text \<open>
  What happens to a deep shelf during play: an update tick of \<open>dt\<close> seconds with the
  pointer pressed on the products \<open>pressed\<close>, or a product added to or removed from a slot
  by the level. \<open>run_deep\<close> applies a sequence of them to
  the deep shelf \<open>r\<close>; a fault ends the run.
\<close>

datatype shelf_op = Tick real "pref \<Rightarrow> bool" | Add int pref | Remove int

fun deep_step :: "shelf_op \<Rightarrow> sref \<Rightarrow> World \<Rightarrow> error + World" where
  "deep_step (Tick dt pressed) r w = DeepShelf_update dt pressed r w"
| "deep_step (Add i p) r w =
     Inr (w\<lparr>store := (store w)(r := fst (DeepShelf_addProductAtIndex (store w r) i p))\<rparr>)"
| "deep_step (Remove i) r w =
     Inr (w\<lparr>store := (store w)(r := fst (DeepShelf_removeProductAtIndex (store w r) i))\<rparr>)"

fun run_deep :: "shelf_op list \<Rightarrow> sref \<Rightarrow> World \<Rightarrow> error + World" where
  "run_deep [] r w = Inr w"
| "run_deep (x # xs) r w =
     (case deep_step x r w of Inl e \<Rightarrow> Inl e | Inr w1 \<Rightarrow> run_deep xs r w1)"

text \<open>The total of an id in \<open>productMatches\<close>; and the table has an entry for the id of
  every product, as the table the constructor of Level builds from the ids of the factory
  has.\<close>

definition total_of :: "string \<Rightarrow> (string \<times> pref \<times> nat) list \<Rightarrow> nat" where
  "total_of k pm = (case map_of pm k of None \<Rightarrow> 0 | Some (p, n) \<Rightarrow> n)"

definition registered :: "(pref \<Rightarrow> Product) \<Rightarrow> Stats \<Rightarrow> bool" where
  "registered h st = (\<forall>p. product_id (h p) \<in> fst ` set (productMatches st))"

text \<open>The statistics of a shelf are up to date only while none of its products can
  match: \<open>statsUpdated\<close> is set by an update that found a match or an empty shelf, and
  every add and remove clears it.\<close>

definition stats_due :: "(pref \<Rightarrow> Product) \<Rightarrow> Shelf \<Rightarrow> bool" where
  "stats_due h s = (statsUpdated s \<longrightarrow> validProducts h (products s) = [])"

text \<open>A deep shelf of two layers: an apple in the layer below, an empty layer on top.\<close>

definition deep_world :: World where
  "deep_world =
     DeepShelf_constructor 1 [[Item 3, Null, Null], [Null, Null, Null]] 3 3 False None
       (blank_world\<lparr>level := no_level\<lparr>stats := no_stats\<lparr>productMatches :=
          [(''apple'', 0, 0)]\<rparr>\<rparr>\<rparr>)"

text \<open>A shelf of three slots and match count three, built with three apples in it.\<close>

definition apple_world :: World where
  "apple_world =
     Shelf_constructor 1 BaseShelf [Item 0, Item 1, Item 2] 3 3 False None True
       (blank_world\<lparr>level := no_level\<lparr>stats := no_stats\<lparr>productMatches :=
          [(''apple'', 0, 0)]\<rparr>\<rparr>\<rparr>)"

text \<open>Slot \<open>i\<close> of shelf \<open>s\<close> is a slot of the shelf that may take the dragged product
  and whose box overlaps that of the product.\<close>

definition eligible ::
  "(sref \<Rightarrow> Shelf) \<Rightarrow> (sref \<Rightarrow> nat \<Rightarrow> bool) \<Rightarrow> sref \<Rightarrow> nat \<Rightarrow> bool"
where
  "eligible st overlaps s i =
     (i < slotCount (st s) \<and> canDropProductAtIndex st (st s) (int i) \<and> overlaps s i)"

text \<open>A level of two shelves: shelf 1 holds product 0 in slot 0, shelf 2 is empty, and the
  player is dragging product 0.\<close>

definition drag_world :: World where
  "drag_world =
     blank_world\<lparr>
       store := (store blank_world)
                  (1 := new_Shelf BaseShelf [Item 0, Null, Null] 3 3 False None),
       level := no_level\<lparr>shelves := [1, 2], draggingProduct := Some (1, 0, 0)\<rparr>\<rparr>"

section \<open>Product.disappear\<close>

text \<open>
  C10. \<open>Product.disappear\<close> is idempotent: on a product that is already disappearing it
  changes nothing, so a second call, whatever its delay, leaves the timer, the delay and the
  started and finished flags as the first call set them.
\<close>

theorem disappear_idempotent:
  "(disappearing p \<longrightarrow> disappear d p = p) \<and>
   disappear d2 (disappear d1 p) = disappear d1 p \<and>
   disappearing (disappear d1 p)"
  by (simp add: disappear_def)

theorem disappear_idempotent_witness:
  "disappearing (disappear 0 \<lparr>product_id = ''apple'', matches = [''apple''], locked = False,
       dragging = False, disappearing = False, startedDisappearing = False,
       finishedDisappearing = False, disappearingTime = 0, disappearingDelay = 0\<rparr>) \<and>
   disappear (4 / 10) (disappear 0 \<lparr>product_id = ''apple'', matches = [''apple''],
       locked = False, dragging = False, disappearing = False, startedDisappearing = False,
       finishedDisappearing = False, disappearingTime = 0, disappearingDelay = 0\<rparr>)
   = \<lparr>product_id = ''apple'', matches = [''apple''], locked = False,
       dragging = False, disappearing = True, startedDisappearing = False,
       finishedDisappearing = False, disappearingTime = 5 / 10, disappearingDelay = 0\<rparr>"
  using disappear_idempotent [of "disappear 0 \<lparr>product_id = ''apple'', matches = [''apple''],
       locked = False, dragging = False, disappearing = False, startedDisappearing = False,
       finishedDisappearing = False, disappearingTime = 0, disappearingDelay = 0\<rparr>" "4 / 10"]
  by (simp add: disappear_def DISAPPEARING_ANIMATION_TIME_def)

section \<open>Shelf.checkForMatches\<close>

lemma later_match_snoc:
  assumes "later_match h g" "list_all (\<lambda>gp. matchesProduct (h m) (h gp)) g"
  shows "later_match h (g @ [m])"
  unfolding later_match_def
proof (intro allI impI)
  fix i j assume ij: "i < j \<and> j < length (g @ [m])"
  show "matchesProduct (h ((g @ [m]) ! j)) (h ((g @ [m]) ! i))"
  proof (cases "j < length g")
    case True
    with ij assms(1) show ?thesis by (simp add: later_match_def nth_append)
  next
    case False
    with ij have j: "j = length g" and i: "i < length g" by auto
    from assms(2) i have "matchesProduct (h m) (h (g ! i))"
      by (simp add: list_all_length)
    with j i show ?thesis by (simp add: nth_append)
  qed
qed

lemma grow_inv:
  "distinct g \<Longrightarrow> set g \<subseteq> set av \<Longrightarrow> later_match h g \<Longrightarrow>
   distinct (growMatchingGroup h mc g av) \<and> set (growMatchingGroup h mc g av) \<subseteq> set av \<and>
   later_match h (growMatchingGroup h mc g av)"
proof (induction h mc g av rule: growMatchingGroup.induct)
  case (1 h mc g av)
  let ?F = "filter (\<lambda>product. product \<notin> set g \<and>
                      list_all (\<lambda>groupProduct. matchesProduct (h product) (h groupProduct)) g) av"
  show ?case
  proof (cases "length g \<ge> mc")
    case True
    then have "growMatchingGroup h mc g av = g"
      by (subst growMatchingGroup.simps) simp
    with 1 show ?thesis by simp
  next
    case False
    show ?thesis
    proof (cases ?F)
      case Nil
      with False have "growMatchingGroup h mc g av = g"
        by (subst growMatchingGroup.simps) simp
      with 1 show ?thesis by simp
    next
      case (Cons m ms)
      then have "m \<in> set ?F" by simp
      then have m: "m \<in> set av" "m \<notin> set g" "list_all (\<lambda>gp. matchesProduct (h m) (h gp)) g"
        by auto
      have "distinct (g @ [m])" "set (g @ [m]) \<subseteq> set av" "later_match h (g @ [m])"
        using m 1(2,3,4) by (auto intro: later_match_snoc)
      from "1.IH"[OF _ Cons this] False
      have "distinct (growMatchingGroup h mc (g @ [m]) av) \<and>
            set (growMatchingGroup h mc (g @ [m]) av) \<subseteq> set av \<and>
            later_match h (growMatchingGroup h mc (g @ [m]) av)" by simp
      moreover have "growMatchingGroup h mc g av = growMatchingGroup h mc (g @ [m]) av"
        using False Cons by (subst growMatchingGroup.simps) simp
      ultimately show ?thesis by simp
    qed
  qed
qed

lemma validProducts_set:
  "set (validProducts h cs) = {p. Item p \<in> set cs \<and> \<not> disappearing (h p)}"
  by (induction h cs rule: validProducts.induct) auto

text \<open>
  C1, as stated, fails. The shelf holds A in slot 0 and B in slot 1 and needs two products;
  B lists A among its matches, A lists nothing. A match is reported with the group [A, B],
  and A does not match B: the algorithm asks a candidate whether it matches the members of
  the group, never a member whether it matches the candidate.
\<close>

theorem checkForMatches_pair_counterexample:
  "fst (checkForMatches asym_heap (new_Shelf BaseShelf [Item 0, Item 1, Null] 3 2 False None)) \<and>
   snd (checkForMatches asym_heap (new_Shelf BaseShelf [Item 0, Item 1, Null] 3 2 False None))
     = Some [0, 1] \<and>
   \<not> matchesProduct (asym_heap 0) (asym_heap 1)"
  by (simp add: growMatchingGroup.simps checkForMatches_def findMatchingGroups_def
      new_Shelf_def asym_heap_def some_product_def matchesProduct_def)

text \<open>
  C1, amended. When \<open>Shelf.checkForMatches\<close> reports a match, the group it returns has
  exactly \<open>matchCount\<close> members, they are distinct objects among the products of the shelf
  that are neither null nor disappearing, and every member matches every member that
  precedes it in the group. When matching is symmetric among the members, any two distinct
  members match each other.
\<close>

theorem checkForMatches_group:
  assumes "fst (checkForMatches h this)"
  shows "\<exists>g. snd (checkForMatches h this) = Some g \<and> length g = matchCount this \<and> distinct g \<and>
     (\<forall>p \<in> set g. Item p \<in> set (products this) \<and> \<not> disappearing (h p)) \<and>
     (\<forall>i j. i < j \<and> j < length g \<longrightarrow> matchesProduct (h (g ! j)) (h (g ! i))) \<and>
     ((\<forall>x \<in> set g. \<forall>y \<in> set g. matchesProduct (h x) (h y) \<longrightarrow> matchesProduct (h y) (h x)) \<longrightarrow>
      (\<forall>x \<in> set g. \<forall>y \<in> set g. x \<noteq> y \<longrightarrow> matchesProduct (h x) (h y)))"
proof -
  let ?vp = "validProducts h (products this)"
  let ?mc = "matchCount this"
  let ?all = "findMatchingGroups h ?mc ?vp"
  from assms have ne: "?all \<noteq> []"
    by (simp add: checkForMatches_def Let_def)
  then obtain g rest where all: "?all = g # rest"
    by (cases ?all) auto
  then have "g \<in> set ?all" by simp
  then obtain p where p: "p \<in> set ?vp" and len: "?mc \<le> length (growMatchingGroup h ?mc [p] ?vp)"
    and g: "g = take ?mc (growMatchingGroup h ?mc [p] ?vp)"
    by (auto simp: findMatchingGroups_def)
  let ?G = "growMatchingGroup h ?mc [p] ?vp"
  have "later_match h [p]" by (simp add: later_match_def)
  with p have G: "distinct ?G" "set ?G \<subseteq> set ?vp" "later_match h ?G"
    using grow_inv[of "[p]" ?vp h ?mc] by auto
  have 1: "snd (checkForMatches h this) = Some g"
    using all by (simp add: checkForMatches_def Let_def)
  have 2: "length g = ?mc" using g len by simp
  have 3: "distinct g" using g G(1) by simp
  have 4: "\<forall>p \<in> set g. Item p \<in> set (products this) \<and> \<not> disappearing (h p)"
  proof
    fix q assume "q \<in> set g"
    then have "q \<in> set ?G" using g by (auto dest: in_set_takeD)
    then have "q \<in> set ?vp" using G(2) by auto
    then show "Item q \<in> set (products this) \<and> \<not> disappearing (h q)"
      by (simp add: validProducts_set)
  qed
  have 5: "\<forall>i j. i < j \<and> j < length g \<longrightarrow> matchesProduct (h (g ! j)) (h (g ! i))"
    using G(3) g by (auto simp: later_match_def)
  have 6: "(\<forall>x \<in> set g. \<forall>y \<in> set g. matchesProduct (h x) (h y) \<longrightarrow> matchesProduct (h y) (h x)) \<longrightarrow>
      (\<forall>x \<in> set g. \<forall>y \<in> set g. x \<noteq> y \<longrightarrow> matchesProduct (h x) (h y))"
  proof (intro impI ballI)
    fix x y
    assume sym: "\<forall>x \<in> set g. \<forall>y \<in> set g. matchesProduct (h x) (h y) \<longrightarrow> matchesProduct (h y) (h x)"
      and x: "x \<in> set g" and y: "y \<in> set g" and xy: "x \<noteq> y"
    from x obtain i where i: "i < length g" "g ! i = x" by (auto simp: in_set_conv_nth)
    from y obtain j where j: "j < length g" "g ! j = y" by (auto simp: in_set_conv_nth)
    from xy i j have "i \<noteq> j" by auto
    then consider "i < j" | "j < i" by linarith
    then show "matchesProduct (h x) (h y)"
    proof cases
      case 1
      with 5 j have "matchesProduct (h (g ! j)) (h (g ! i))" by blast
      with i j sym x y show ?thesis by blast
    next
      case 2
      with 5 i have "matchesProduct (h (g ! i)) (h (g ! j))" by blast
      with i j show ?thesis by simp
    qed
  qed
  from 1 2 3 4 5 6 show ?thesis by blast
qed

theorem checkForMatches_group_witness:
  "fst (checkForMatches apples (new_Shelf BaseShelf [Item 0, Item 1, Item 2] 3 3 False None)) \<and>
   (\<exists>g. snd (checkForMatches apples (new_Shelf BaseShelf [Item 0, Item 1, Item 2] 3 3 False None))
           = Some g \<and>
        length g = 3 \<and> distinct g \<and> matchesProduct (apples (g ! 2)) (apples (g ! 0)))"
proof -
  have f: "fst (checkForMatches apples (new_Shelf BaseShelf [Item 0, Item 1, Item 2] 3 3 False None))"
    by (simp add: growMatchingGroup.simps checkForMatches_def findMatchingGroups_def
        new_Shelf_def apples_def some_product_def matchesProduct_def)
  from checkForMatches_group[OF f] f show ?thesis
    by (auto simp: new_Shelf_def)
qed

section \<open>LockingShelf.shelfIsLocked\<close>

text \<open>
  C5. The code at the input of the claim: a \<open>complete-shelves\<close> condition with \<open>n = 2\<close>.
  With two shelves counted as completed \<open>shelfIsLocked\<close> returns true, the shelf is locked;
  with one it returns false, the shelf is unlocked. The comment in the source and the claim
  say the opposite.
\<close>

theorem complete_shelves_locks_at_threshold:
  "shelfIsLocked (counted_world 2) (locking_shelf (CompleteShelves 2)) = Inr True \<and>
   shelfIsLocked (counted_world 1) (locking_shelf (CompleteShelves 2)) = Inr False"
  by (simp add: shelfIsLocked_def locking_shelf_def LockingShelf_constructor_def
      Shelf_constructor_def counted_world_def blank_world_def no_level_def no_stats_def)

text \<open>
  C4. The code at the input of the claim: a \<open>place-product\<close> condition on slot 0 of the
  shelf with reference A, with any product qualifying. Once a placement into that shelf
  is in the log, evaluating the condition in latch mode throws; so does the non-latch mode
  while the shelf holds a product. Before any placement the latch mode returns false, the
  shelf is unlocked.
\<close>

theorem place_product_lock_throws:
  "shelfIsLocked placed_world (locking_shelf (PlaceProduct ''A'' 0 True False None))
     = Inl TypeError \<and>
   shelfIsLocked placed_world (locking_shelf (PlaceProduct ''A'' 0 False False None))
     = Inl TypeError \<and>
   shelfIsLocked blank_world (locking_shelf (PlaceProduct ''A'' 0 True False None))
     = Inr False"
  by (simp add: shelfIsLocked_def latch_test_def current_test_def slot_test_def
      this_mode_slot_def this_mode_def locking_shelf_def LockingShelf_constructor_def
      Shelf_constructor_def placed_world_def blank_world_def no_level_def no_stats_def
      new_Shelf_def)

section \<open>DisplayShelf.checkForMatches\<close>

lemma scan_found:
  "fst (DisplayShelf_scan h ps k al acc)
   \<longleftrightarrow> (\<forall>i < length al. slot_agrees h (al ! i) (js_get ps (int (k + i))))"
proof (induction al arbitrary: k acc)
  case Nil
  then show ?case by simp
next
  case (Cons a rest)
  have split: "(\<forall>i < length (a # rest). slot_agrees h ((a # rest) ! i) (js_get ps (int (k + i))))
      \<longleftrightarrow> (slot_agrees h a (js_get ps (int k)) \<and>
           (\<forall>i < length rest. slot_agrees h (rest ! i) (js_get ps (int (Suc k + i)))))"
    by (simp add: All_less_Suc2 algebra_simps)
  show ?case
    unfolding split
    by (cases a; cases "js_get ps (int k)") (auto simp: slot_agrees_def Cons.IH)
qed

text \<open>
  C7, as stated, fails. The loop runs over the entries of \<open>allowed\<close>, not over the slots
  of the shelf. On a shelf of three slots with the single allowed product A and the
  products [A, C, B] a match is reported, although slots 1 and 2 hold products and have
  no allowed product. With the allowed products [A, null, B, null] the products
  [A, null, B] of the claim are no match, although each of the three slots agrees with
  its allowed product: entry 3 is compared with \<open>undefined\<close>. And with the allowed products
  [A, null, B] the products [A, null, B] are no match when A does not list its own id in
  \<open>matches\<close>.
\<close>

theorem DisplayShelf_slots_counterexample:
  "fst (DisplayShelf_checkForMatches fruit (display_shelf_of [Some 10] [Item 0, Item 2, Item 1])) \<and>
   slotCount (display_shelf_of [Some 10] [Item 0, Item 2, Item 1]) = 3 \<and>
   length (allowed (display_shelf_of [Some 10] [Item 0, Item 2, Item 1])) = 1 \<and>
   js_get (products (display_shelf_of [Some 10] [Item 0, Item 2, Item 1])) 1 = Item 2 \<and>
   \<not> fst (DisplayShelf_checkForMatches fruit
           (display_shelf_of [Some 10, None, Some 11, None] [Item 0, Null, Item 1])) \<and>
   slotCount (display_shelf_of [Some 10, None, Some 11, None] [Item 0, Null, Item 1]) = 3 \<and>
   slot_agrees fruit
     (allowed (display_shelf_of [Some 10, None, Some 11, None] [Item 0, Null, Item 1]) ! 0)
     (js_get (products (display_shelf_of [Some 10, None, Some 11, None]
                          [Item 0, Null, Item 1])) 0) \<and>
   slot_agrees fruit
     (allowed (display_shelf_of [Some 10, None, Some 11, None] [Item 0, Null, Item 1]) ! 1)
     (js_get (products (display_shelf_of [Some 10, None, Some 11, None]
                          [Item 0, Null, Item 1])) 1) \<and>
   slot_agrees fruit
     (allowed (display_shelf_of [Some 10, None, Some 11, None] [Item 0, Null, Item 1]) ! 2)
     (js_get (products (display_shelf_of [Some 10, None, Some 11, None]
                          [Item 0, Null, Item 1])) 2) \<and>
   \<not> fst (DisplayShelf_checkForMatches pairs
           (display_shelf_of [Some 10, None, Some 11] [Item 0, Null, Item 1]))"
  by (simp add: DisplayShelf_checkForMatches_def display_shelf_of_def
      DisplayShelf_constructor_def Shelf_constructor_def new_Shelf_def blank_world_def
      js_get_def matchesProduct_def fruit_def pairs_def some_product_def slot_agrees_def)

text \<open>
  C7, amended. \<open>DisplayShelf.checkForMatches\<close> reports a match exactly when every entry of
  \<open>allowed\<close> agrees with the slot of the same index: both are null, or both are products
  and the occupant matches the allowed one. When \<open>allowed\<close> has \<open>slotCount\<close> entries these
  are the slots of the shelf. With the allowed products [A, null, B] the products
  [A', null, B'] are a match exactly when A' matches A and B' matches B, and the products
  [A', C, B'] are never a match.
\<close>

theorem DisplayShelf_found_iff:
  "(fst (DisplayShelf_checkForMatches h this)
    \<longleftrightarrow> (\<forall>i < length (allowed this).
          (allowed this ! i = None \<and> js_get (products this) (int i) = Null) \<or>
          (\<exists>q p. allowed this ! i = Some q \<and> js_get (products this) (int i) = Item p \<and>
                 matchesProduct (h p) (h q)))) \<and>
   (length (allowed this) = slotCount this \<longrightarrow>
      (fst (DisplayShelf_checkForMatches h this)
       \<longleftrightarrow> (\<forall>i < slotCount this.
             (allowed this ! i = None \<and> js_get (products this) (int i) = Null) \<or>
             (\<exists>q p. allowed this ! i = Some q \<and> js_get (products this) (int i) = Item p \<and>
                    matchesProduct (h p) (h q))))) \<and>
   (allowed this = [Some a, None, Some b] \<and> products this = [Item a', Null, Item b'] \<longrightarrow>
      (fst (DisplayShelf_checkForMatches h this)
       \<longleftrightarrow> matchesProduct (h a') (h a) \<and> matchesProduct (h b') (h b))) \<and>
   (allowed this = [Some a, None, Some b] \<and> products this = [Item a', Item c, Item b'] \<longrightarrow>
      \<not> fst (DisplayShelf_checkForMatches h this))"
proof -
  have iff: "fst (DisplayShelf_checkForMatches h this)
    \<longleftrightarrow> (\<forall>i < length (allowed this).
          (allowed this ! i = None \<and> js_get (products this) (int i) = Null) \<or>
          (\<exists>q p. allowed this ! i = Some q \<and> js_get (products this) (int i) = Item p \<and>
                 matchesProduct (h p) (h q)))"
    using scan_found[of h "products this" 0 "allowed this" "[]"]
    by (simp add: DisplayShelf_checkForMatches_def slot_agrees_def)
  have slots: "length (allowed this) = slotCount this \<longrightarrow>
      (fst (DisplayShelf_checkForMatches h this)
       \<longleftrightarrow> (\<forall>i < slotCount this.
             (allowed this ! i = None \<and> js_get (products this) (int i) = Null) \<or>
             (\<exists>q p. allowed this ! i = Some q \<and> js_get (products this) (int i) = Item p \<and>
                    matchesProduct (h p) (h q))))"
    using iff by simp
  have yes: "allowed this = [Some a, None, Some b] \<and> products this = [Item a', Null, Item b'] \<longrightarrow>
      (fst (DisplayShelf_checkForMatches h this)
       \<longleftrightarrow> matchesProduct (h a') (h a) \<and> matchesProduct (h b') (h b))"
    by (simp add: DisplayShelf_checkForMatches_def js_get_def)
  have no: "allowed this = [Some a, None, Some b] \<and> products this = [Item a', Item c, Item b'] \<longrightarrow>
      \<not> fst (DisplayShelf_checkForMatches h this)"
    by (simp add: DisplayShelf_checkForMatches_def js_get_def)
  from iff slots yes no show ?thesis by blast
qed

theorem DisplayShelf_found_iff_witness:
  "length (allowed (display_shelf [Item 0, Null, Item 1]))
     = slotCount (display_shelf [Item 0, Null, Item 1]) \<and>
   fst (DisplayShelf_checkForMatches fruit (display_shelf [Item 0, Null, Item 1])) \<and>
   \<not> fst (DisplayShelf_checkForMatches fruit (display_shelf [Item 0, Item 2, Item 1]))"
proof -
  have a: "allowed (display_shelf ps) = [Some 10, None, Some 11]"
          "products (display_shelf ps) = ps" "slotCount (display_shelf ps) = 3" for ps
    by (simp_all add: display_shelf_def DisplayShelf_constructor_def Shelf_constructor_def
        new_Shelf_def blank_world_def)
  have y: "fst (DisplayShelf_checkForMatches fruit (display_shelf [Item 0, Null, Item 1]))"
    using DisplayShelf_found_iff[of fruit "display_shelf [Item 0, Null, Item 1]" 10 11 0 1 2,
        THEN conjunct2, THEN conjunct2, THEN conjunct1]
    by (simp add: a matchesProduct_def fruit_def some_product_def)
  have n: "\<not> fst (DisplayShelf_checkForMatches fruit (display_shelf [Item 0, Item 2, Item 1]))"
    using DisplayShelf_found_iff[of fruit "display_shelf [Item 0, Item 2, Item 1]" 10 11 0 1 2,
        THEN conjunct2, THEN conjunct2, THEN conjunct2]
    by (simp add: a)
  from y n show ?thesis by (simp add: a)
qed


section \<open>Slots: add, remove, lock\<close>

lemma length_js_set: "i < length xs \<Longrightarrow> length (js_set xs i v) = length xs"
  by (simp add: js_set_def)

text \<open>
  C3, as stated, fails for the three wrappers: their constructors pass an empty products
  array and no slot count to the constructor of Shelf, so such a shelf has no products
  and the default slot count 3. A remove on slot 0 of a wrapper leaves it one entry, still
  not three. The constructor of Shelf compares nothing either: given one product and the
  slot count 3 it keeps both.
\<close>

theorem wrapper_products_counterexample:
  "length (products (store (SupplyShelf_constructor 2 1 blank_world) 2))
     \<noteq> slotCount (store (SupplyShelf_constructor 2 1 blank_world) 2) \<and>
   length (products (store (LockingShelf_constructor 2 1 (CompleteShelves 2) blank_world) 2))
     \<noteq> slotCount (store (LockingShelf_constructor 2 1 (CompleteShelves 2) blank_world) 2) \<and>
   length (products (store (DisappearingShelf_constructor 2 1 blank_world) 2))
     \<noteq> slotCount (store (DisappearingShelf_constructor 2 1 blank_world) 2) \<and>
   length (products (fst (removeProductAtIndex supply_wrapper 0)))
     \<noteq> slotCount (fst (removeProductAtIndex supply_wrapper 0)) \<and>
   length (products short_shelf) \<noteq> slotCount short_shelf"
  by (simp add: SupplyShelf_constructor_def LockingShelf_constructor_def
      DisappearingShelf_constructor_def Shelf_constructor_def new_Shelf_def
      DEFAULT_SLOT_COUNT_def supply_wrapper_def short_shelf_def removeProductAtIndex_def
      Shelf_removeProductAtIndex_def js_set_def)

text \<open>
  C3, amended. \<open>addProductAtIndex\<close> never changes the length of \<open>products\<close>;
  \<open>removeProductAtIndex\<close> on an index in range (of a DeepShelf: one that has a layer)
  leaves an array of at least \<open>index + 1\<close> entries, and otherwise changes nothing; neither
  changes \<open>slotCount\<close>. So \<open>products.length == slotCount\<close>, and likewise
  \<open>products.length <= slotCount\<close>, still holds after an add or a remove on a shelf on which
  it held before. The constructors store what they are given: \<open>products.length == slotCount\<close>
  holds for a new Shelf, ClosingShelf or DisplayShelf exactly when the products array given
  has \<open>slotCount\<close> entries, and for a new DeepShelf exactly when it is given no layers or a
  top layer of \<open>slotCount\<close> entries. A new Supply, Locking or Disappearing wrapper has an
  empty products array and the slot count 3.
\<close>

theorem products_length_preserved:
  "(length (products (fst (addProductAtIndex s i p))) = length (products s) \<and>
    slotCount (fst (addProductAtIndex s i p)) = slotCount s) \<and>
   (length (products (fst (removeProductAtIndex s i)))
      = (if 0 \<le> i \<and> i < int (slotCount s) \<and> \<not> (kind s = DeepShelf \<and> layers s = [])
         then max (length (products s)) (nat i + 1) else length (products s)) \<and>
    slotCount (fst (removeProductAtIndex s i)) = slotCount s) \<and>
   (length (products s) = slotCount s \<longrightarrow>
      length (products (fst (addProductAtIndex s i p))) = slotCount (fst (addProductAtIndex s i p)) \<and>
      length (products (fst (removeProductAtIndex s i))) = slotCount (fst (removeProductAtIndex s i))) \<and>
   (length (products s) \<le> slotCount s \<longrightarrow>
      length (products (fst (addProductAtIndex s i p))) \<le> slotCount (fst (addProductAtIndex s i p)) \<and>
      length (products (fst (removeProductAtIndex s i))) \<le> slotCount (fst (removeProductAtIndex s i))) \<and>
   (length (products (store (Shelf_constructor r k ps sc mc ign ref a w) r))
      = slotCount (store (Shelf_constructor r k ps sc mc ign ref a w) r)
    \<longleftrightarrow> length ps = sc) \<and>
   (length (products (store (DisplayShelf_constructor r al ps sc mc ign ref a w) r))
      = slotCount (store (DisplayShelf_constructor r al ps sc mc ign ref a w) r)
    \<longleftrightarrow> length ps = sc) \<and>
   (length (products (store (DeepShelf_constructor r ls sc mc ign ref w) r))
      = slotCount (store (DeepShelf_constructor r ls sc mc ign ref w) r)
    \<longleftrightarrow> ls = [] \<or> length (last ls) = sc) \<and>
   (products (store (SupplyShelf_constructor r j w) r) = [] \<and>
    slotCount (store (SupplyShelf_constructor r j w) r) = 3) \<and>
   (products (store (LockingShelf_constructor r j m w) r) = [] \<and>
    slotCount (store (LockingShelf_constructor r j m w) r) = 3) \<and>
   (products (store (DisappearingShelf_constructor r j w) r) = [] \<and>
    slotCount (store (DisappearingShelf_constructor r j w) r) = 3)"
proof -
  have add: "length (products (fst (addProductAtIndex s i p))) = length (products s) \<and>
    slotCount (fst (addProductAtIndex s i p)) = slotCount s"
    by (auto simp: addProductAtIndex_def Shelf_addProductAtIndex_def
        DeepShelf_addProductAtIndex_def js_get_def js_set_def)
  have rem: "length (products (fst (removeProductAtIndex s i)))
      = (if 0 \<le> i \<and> i < int (slotCount s) \<and> \<not> (kind s = DeepShelf \<and> layers s = [])
         then max (length (products s)) (nat i + 1) else length (products s)) \<and>
    slotCount (fst (removeProductAtIndex s i)) = slotCount s"
    by (auto simp: removeProductAtIndex_def Shelf_removeProductAtIndex_def
        DeepShelf_removeProductAtIndex_def js_set_def)
  have eq: "length (products s) = slotCount s \<longrightarrow>
      length (products (fst (addProductAtIndex s i p))) = slotCount (fst (addProductAtIndex s i p)) \<and>
      length (products (fst (removeProductAtIndex s i))) = slotCount (fst (removeProductAtIndex s i))"
    using add rem by auto
  have le: "length (products s) \<le> slotCount s \<longrightarrow>
      length (products (fst (addProductAtIndex s i p))) \<le> slotCount (fst (addProductAtIndex s i p)) \<and>
      length (products (fst (removeProductAtIndex s i))) \<le> slotCount (fst (removeProductAtIndex s i))"
    using add rem by auto
  have base: "length (products (store (Shelf_constructor r k ps sc mc ign ref a w) r))
      = slotCount (store (Shelf_constructor r k ps sc mc ign ref a w) r)
    \<longleftrightarrow> length ps = sc"
    by (simp add: Shelf_constructor_def new_Shelf_def)
  have display: "length (products (store (DisplayShelf_constructor r al ps sc mc ign ref a w) r))
      = slotCount (store (DisplayShelf_constructor r al ps sc mc ign ref a w) r)
    \<longleftrightarrow> length ps = sc"
    by (simp add: DisplayShelf_constructor_def Shelf_constructor_def new_Shelf_def Let_def)
  have deep: "length (products (store (DeepShelf_constructor r ls sc mc ign ref w) r))
      = slotCount (store (DeepShelf_constructor r ls sc mc ign ref w) r)
    \<longleftrightarrow> ls = [] \<or> length (last ls) = sc"
    by (simp add: DeepShelf_constructor_def Shelf_constructor_def new_Shelf_def Let_def
        peek_def)
  have wrappers:
    "products (store (SupplyShelf_constructor r j w) r) = [] \<and>
     slotCount (store (SupplyShelf_constructor r j w) r) = 3"
    "products (store (LockingShelf_constructor r j m w) r) = [] \<and>
     slotCount (store (LockingShelf_constructor r j m w) r) = 3"
    "products (store (DisappearingShelf_constructor r j w) r) = [] \<and>
     slotCount (store (DisappearingShelf_constructor r j w) r) = 3"
    by (simp_all add: SupplyShelf_constructor_def LockingShelf_constructor_def
        DisappearingShelf_constructor_def Shelf_constructor_def new_Shelf_def Let_def
        DEFAULT_SLOT_COUNT_def)
  from add rem eq le base display deep wrappers show ?thesis by blast
qed

theorem products_length_preserved_witness:
  "length (products built3) = 3 \<and>
   length (products (fst (addProductAtIndex built3 2 5))) = 3 \<and>
   length (products (fst (removeProductAtIndex built3 0))) = 3 \<and>
   length (products (fst (removeProductAtIndex supply_wrapper 1))) \<le> 3"
proof -
  have k: "slotCount built3 = 3" "products built3 = [Item 0, Null, Null]"
    "slotCount supply_wrapper = 3" "products supply_wrapper = []"
    by (simp_all add: built3_def supply_wrapper_def Shelf_constructor_def
        SupplyShelf_constructor_def new_Shelf_def DEFAULT_SLOT_COUNT_def Let_def)
  note add = products_length_preserved[THEN conjunct1]
  note rem = products_length_preserved[THEN conjunct2, THEN conjunct1]
  note eq = products_length_preserved[THEN conjunct2, THEN conjunct2, THEN conjunct1]
  note le = products_length_preserved[THEN conjunct2, THEN conjunct2, THEN conjunct2,
      THEN conjunct1]
  have 1: "length (products (fst (addProductAtIndex built3 2 5))) = 3"
    using eq[of built3 2 5] add[of built3 2 5] by (simp add: k)
  have 2: "length (products (fst (removeProductAtIndex built3 0))) = 3"
    using eq[of built3 0 5] rem[of built3 0] by (simp add: k)
  have 3: "length (products (fst (removeProductAtIndex supply_wrapper 1))) \<le> 3"
    using le[of supply_wrapper 1 5] rem[of supply_wrapper 1] by (simp add: k)
  from 1 2 3 show ?thesis by (simp add: k)
qed








section \<open>Shelf.update and DeepShelf.update\<close>

lemma increment_total_ok:
  "k \<in> fst ` set pm \<Longrightarrow>
   \<exists>pm'. increment_total k pm = Inr pm' \<and> map fst pm' = map fst pm \<and>
         (\<forall>k'. total_of k' pm' = total_of k' pm + (if k' = k then 1 else 0))"
proof (induction k pm rule: increment_total.induct)
  case (1 k)
  then show ?case by simp
next
  case (2 k k' p n es)
  show ?case
  proof (cases "k = k'")
    case True
    then show ?thesis by (simp add: total_of_def)
  next
    case False
    with 2 obtain es' where es': "increment_total k es = Inr es'" "map fst es' = map fst es"
      "\<forall>j. total_of j es' = total_of j es + (if j = k then 1 else 0)"
      by auto
    with False show ?thesis by (auto simp: total_of_def)
  qed
qed

lemma record_matches_ok:
  "\<forall>p \<in> set g. product_id (h p) \<in> fst ` set (productMatches st) \<Longrightarrow>
   \<exists>st'. record_matches h g st = Inr st' \<and>
     map fst (productMatches st') = map fst (productMatches st) \<and>
     totalMatches st' = totalMatches st + length g \<and>
     totalCompletedShelves st' = totalCompletedShelves st \<and>
     (\<forall>k. total_of k (productMatches st')
          = total_of k (productMatches st) + length (filter (\<lambda>p. product_id (h p) = k) g))"
proof (induction g arbitrary: st)
  case Nil
  then show ?case by simp
next
  case (Cons p g)
  then have "product_id (h p) \<in> fst ` set (productMatches st)" by simp
  from increment_total_ok[OF this] obtain pm' where pm':
    "increment_total (product_id (h p)) (productMatches st) = Inr pm'"
    "map fst pm' = map fst (productMatches st)"
    "\<forall>k'. total_of k' pm' = total_of k' (productMatches st) + (if k' = product_id (h p) then 1 else 0)"
    by blast
  let ?st1 = "st\<lparr>productMatches := pm', totalMatches := Suc (totalMatches st)\<rparr>"
  have "fst ` set pm' = fst ` set (productMatches st)"
    using pm'(2) by (metis set_map)
  with Cons.prems have "\<forall>p \<in> set g. product_id (h p) \<in> fst ` set (productMatches ?st1)"
    by simp
  from Cons.IH[OF this] obtain st' where st':
    "record_matches h g ?st1 = Inr st'"
    "map fst (productMatches st') = map fst (productMatches ?st1)"
    "totalMatches st' = totalMatches ?st1 + length g"
    "totalCompletedShelves st' = totalCompletedShelves ?st1"
    "\<forall>k. total_of k (productMatches st')
          = total_of k (productMatches ?st1) + length (filter (\<lambda>p. product_id (h p) = k) g)"
    by blast
  show ?case
    using pm' st' by auto
qed

lemma product_id_disappear [simp]: "product_id (disappear d p) = product_id p"
  by (simp add: disappear_def)

lemma product_id_update [simp]: "product_id (Product_update dt grab p) = product_id p"
  by (simp add: Product_update_def Let_def)

lemma product_id_disappear_all [simp]:
  "product_id (disappear_all i g h p) = product_id (h p)"
  by (induction g arbitrary: i h) simp_all

lemma update_products_keeps [simp]:
  "product_id (fst (update_products dt pressed st r cs hl) p) = product_id (fst hl p)"
  "stats (snd (update_products dt pressed st r cs hl)) = stats (snd hl)"
proof (induction cs arbitrary: hl)
  case Nil
  {
    case 1
    show ?case by simp
  next
    case 2
    show ?case by simp
  }
next
  case (Cons x cs)
  obtain c i where x: "x = (c, i)" by (cases x) auto
  {
    case 1
    show ?case unfolding x by (cases c) (simp_all add: Cons.IH Let_def)
  next
    case 2
    show ?case unfolding x by (cases c) (simp_all add: Cons.IH Let_def)
  }
qed

lemma product_id_settle [simp]:
  "product_id (settle_products cs h p) = product_id (h p)"
proof (induction cs arbitrary: h)
  case Nil
  then show ?case by simp
next
  case (Cons c cs)
  then show ?case by (cases c) simp_all
qed

lemma product_id_settle_fold [simp]:
  "product_id (fold settle_products ls h p) = product_id (h p)"
  by (induction ls arbitrary: h) auto

lemma found_has_group:
  "fst (checkForMatches h s) \<Longrightarrow> \<exists>g. snd (checkForMatches h s) = Some g"
  by (cases "findMatchingGroups h (matchCount s) (validProducts h (products s))")
     (simp_all add: checkForMatches_def)

lemma update_stats_no_match:
  assumes "\<not> fst m"
  shows "\<exists>s3 st2. update_stats m h s st = Inr (s3, st2) \<and>
           s3 = s\<lparr>statsUpdated := statsUpdated s3\<rparr> \<and>
           productMatches st2 = productMatches st \<and> totalMatches st2 = totalMatches st"
  using assms
  by (cases "statsUpdated s") (simp_all add: update_stats_def Let_def)

lemma update_stats_match:
  assumes "fst m" "snd m = Some g" "record_matches h g st = Inr st'"
  shows "\<exists>s3 st2. update_stats m h s st = Inr (s3, st2) \<and>
           s3 = s\<lparr>statsUpdated := statsUpdated s3\<rparr> \<and>
           productMatches st2 = productMatches (if statsUpdated s then st else st') \<and>
           totalMatches st2 = totalMatches (if statsUpdated s then st else st')"
  using assms
  by (cases "statsUpdated s") (simp_all add: update_stats_def Let_def)

lemma Shelf_update_result:
  assumes "Shelf_update dt pressed r w = Inr w1"
  shows "\<exists>h2 s3 st2.
     w1 = w\<lparr>heap := h2, store := (store w)(r := s3),
            level := (snd (update_products dt pressed (store w) r
                             (indexed (products (store w r))) (heap w, level w)))
                       \<lparr>stats := st2\<rparr>\<rparr> \<and>
     s3 = (store w r)\<lparr>products := products s3, statsUpdated := statsUpdated s3\<rparr>"
proof -
  let ?s = "store w r"
  let ?hl = "update_products dt pressed (store w) r (indexed (products ?s)) (heap w, level w)"
  let ?s1 = "?s\<lparr>products := map (remove_finished (fst ?hl)) (products ?s)\<rparr>"
  let ?m = "checkForMatches (fst ?hl) ?s1"
  from assms obtain h2 where sd: "schedule_disappear ?m (fst ?hl) = Inr h2"
    by (cases "schedule_disappear ?m (fst ?hl)") (simp_all add: Shelf_update_def Let_def)
  from assms sd obtain b where us: "update_stats ?m h2 ?s1 (stats (snd ?hl)) = Inr b"
    by (cases "update_stats ?m h2 ?s1 (stats (snd ?hl))") (simp_all add: Shelf_update_def Let_def)
  obtain s3 st2 where b: "b = (s3, st2)" by (cases b) auto
  have sh: "s3 = ?s1\<lparr>statsUpdated := statsUpdated s3\<rparr>"
  proof (cases "fst ?m")
    case False
    from update_stats_no_match[OF False, of h2 ?s1 "stats (snd ?hl)"] us b
    show ?thesis by auto
  next
    case True
    then obtain g where g: "snd ?m = Some g" using found_has_group by blast
    show ?thesis
    proof (cases "record_matches h2 g (stats (snd ?hl))")
      case (Inl e)
      with us b True g show ?thesis
        by (cases "statsUpdated ?s") (simp_all add: update_stats_def)
    next
      case (Inr st')
      from update_stats_match[OF True g Inr, of ?s1] us b
      show ?thesis by auto
    qed
  qed
  have ps3: "products s3 = products ?s1"
    by (subst sh) simp
  have s3: "s3 = ?s\<lparr>products := products s3, statsUpdated := statsUpdated s3\<rparr>"
    by (rule trans[OF sh]) (simp add: ps3)
  from assms sd us b
  have w1: "w1 = w\<lparr>heap := h2, store := (store w)(r := s3),
                    level := (snd ?hl)\<lparr>stats := st2\<rparr>\<rparr>"
    by (simp add: Shelf_update_def Let_def)
  from w1 s3 show ?thesis by blast
qed

lemma Shelf_update_layers:
  assumes "Shelf_update dt pressed r w = Inr w1"
  shows "layers (store w1 r) = layers (store w r)"
proof -
  from Shelf_update_result[OF assms] obtain h2 s3 st2 lv where
    w1: "w1 = w\<lparr>heap := h2, store := (store w)(r := s3), level := lv\<rparr>"
    and s3: "s3 = (store w r)\<lparr>products := products s3, statsUpdated := statsUpdated s3\<rparr>"
    by blast
  have "layers s3 = layers (store w r)"
    by (subst s3) simp
  then show ?thesis by (simp add: w1)
qed

lemma Shelf_update_ok:
  assumes "registered (heap w) (stats (level w))"
  shows "\<exists>w1. Shelf_update dt pressed r w = Inr w1 \<and> registered (heap w1) (stats (level w1))"
proof -
  let ?s = "store w r"
  let ?hl = "update_products dt pressed (store w) r (indexed (products ?s)) (heap w, level w)"
  let ?h1 = "fst ?hl"
  let ?s1 = "?s\<lparr>products := map (remove_finished ?h1) (products ?s)\<rparr>"
  let ?m = "checkForMatches ?h1 ?s1"
  have keys: "fst ` set (productMatches (stats (snd ?hl)))
              = fst ` set (productMatches (stats (level w)))"
    by simp
  show ?thesis
  proof (cases "fst ?m")
    case False
    then have sd: "schedule_disappear ?m ?h1 = Inr ?h1"
      by (simp add: schedule_disappear_def)
    from update_stats_no_match[OF False, of ?h1 ?s1 "stats (snd ?hl)"]
    obtain s3 st2 where us: "update_stats ?m ?h1 ?s1 (stats (snd ?hl)) = Inr (s3, st2)"
      and pm: "productMatches st2 = productMatches (stats (snd ?hl))"
      by blast
    have run: "Shelf_update dt pressed r w
          = Inr (w\<lparr>heap := ?h1, store := (store w)(r := s3),
                   level := (snd ?hl)\<lparr>stats := st2\<rparr>\<rparr>)"
      using us by (simp add: Shelf_update_def Let_def sd)
    have "registered ?h1 st2"
      using assms by (simp add: registered_def pm)
    with run show ?thesis by simp
  next
    case True
    then obtain g where g: "snd ?m = Some g"
      using found_has_group by blast
    let ?h2 = "disappear_all 0 g ?h1"
    have sd: "schedule_disappear ?m ?h1 = Inr ?h2"
      using True g by (simp add: schedule_disappear_def)
    have "\<forall>p \<in> set g. product_id (?h2 p) \<in> fst ` set (productMatches (stats (snd ?hl)))"
      using assms by (simp add: registered_def)
    from record_matches_ok[OF this] obtain st' where st':
      "record_matches ?h2 g (stats (snd ?hl)) = Inr st'"
      "map fst (productMatches st') = map fst (productMatches (stats (snd ?hl)))"
      by blast
    from update_stats_match[OF True g st'(1), of ?s1]
    obtain s3 st2 where
      us: "update_stats ?m ?h2 ?s1 (stats (snd ?hl)) = Inr (s3, st2)"
      and pm: "productMatches st2
               = productMatches (if statsUpdated ?s1 then stats (snd ?hl) else st')"
      by blast
    have "fst ` set (productMatches st') = fst ` set (productMatches (stats (snd ?hl)))"
      using st'(2) by (metis set_map)
    with pm keys have k2: "fst ` set (productMatches st2)
                           = fst ` set (productMatches (stats (level w)))"
      by (cases "statsUpdated ?s1") simp_all
    have run: "Shelf_update dt pressed r w
          = Inr (w\<lparr>heap := ?h2, store := (store w)(r := s3),
                   level := (snd ?hl)\<lparr>stats := st2\<rparr>\<rparr>)"
      using us by (simp add: Shelf_update_def Let_def sd)
    have "registered ?h2 st2"
      using assms by (simp add: registered_def k2)
    with run show ?thesis by simp
  qed
qed

lemma DeepShelf_update_ok:
  assumes "registered (heap w) (stats (level w))"
  shows "\<exists>w1. DeepShelf_update dt pressed r w = Inr w1 \<and>
              registered (heap w1) (stats (level w1))"
proof -
  from Shelf_update_ok[OF assms] obtain w0 where
    w0: "Shelf_update dt pressed r w = Inr w0" "registered (heap w0) (stats (level w0))"
    by blast
  then show ?thesis
    by (simp add: DeepShelf_update_def Let_def registered_def)
qed

lemma butlast_Nil_iff: "(butlast xs = []) = (length xs \<le> 1)"
  by (cases xs) auto

lemma DeepShelf_update_layers:
  assumes "DeepShelf_update dt pressed r w = Inr w1"
  shows "(length (layers (store w1 r)) = length (layers (store w r)) \<or>
          (1 < length (layers (store w r)) \<and>
           length (layers (store w1 r)) = length (layers (store w r)) - 1 \<and>
           products (store w1 r) = last (layers (store w1 r))))"
proof -
  from assms obtain w0 where w0: "Shelf_update dt pressed r w = Inr w0"
    by (cases "Shelf_update dt pressed r w") (simp_all add: DeepShelf_update_def)
  have l: "layers (store w0 r) = layers (store w r)"
    by (rule Shelf_update_layers[OF w0])
  show ?thesis
    using assms l
    by (auto simp: w0 DeepShelf_update_def Let_def peek_def butlast_Nil_iff
        split: if_splits option.splits)
qed

lemma set_top_Nil [simp]: "(set_top ls i v = []) = (ls = [])"
  by (simp add: set_top_def)

lemma deep_step_ok:
  assumes "registered (heap w) (stats (level w))"
  shows "\<exists>w1. deep_step x r w = Inr w1 \<and> registered (heap w1) (stats (level w1))"
proof (cases x)
  case (Tick dt pressed)
  then show ?thesis using DeepShelf_update_ok[OF assms] by simp
next
  case (Add i p)
  then show ?thesis using assms by simp
next
  case (Remove i)
  then show ?thesis using assms by simp
qed

lemma deep_step_layers:
  assumes "deep_step x r w = Inr w1" "layers (store w r) \<noteq> []"
  shows "layers (store w1 r) \<noteq> []"
proof (cases x)
  case (Tick dt pressed)
  with assms(1) have "DeepShelf_update dt pressed r w = Inr w1" by simp
  from DeepShelf_update_layers[OF this] assms(2) show ?thesis
    by (cases "layers (store w r)"; cases "layers (store w1 r)") auto
next
  case (Add i p)
  with assms show ?thesis
    by (auto simp: DeepShelf_addProductAtIndex_def split: if_splits)
next
  case (Remove i)
  with assms show ?thesis
    by (auto simp: DeepShelf_removeProductAtIndex_def split: if_splits)
qed

lemma run_deep_layers:
  "run_deep ops r w = Inr w' \<Longrightarrow> layers (store w r) \<noteq> [] \<Longrightarrow> layers (store w' r) \<noteq> []"
proof (induction ops arbitrary: w)
  case Nil
  then show ?case by simp
next
  case (Cons x xs)
  then obtain w1 where w1: "deep_step x r w = Inr w1" "run_deep xs r w1 = Inr w'"
    by (auto split: sum.splits)
  from deep_step_layers[OF w1(1) Cons.prems(2)] Cons.IH[OF w1(2)] show ?case by simp
qed

lemma run_deep_ok:
  "registered (heap w) (stats (level w)) \<Longrightarrow> \<exists>w'. run_deep ops r w = Inr w'"
proof (induction ops arbitrary: w)
  case Nil
  then show ?case by simp
next
  case (Cons x xs)
  from deep_step_ok[OF Cons.prems] obtain w1 where
    w1: "deep_step x r w = Inr w1" "registered (heap w1) (stats (level w1))"
    by blast
  from Cons.IH[OF w1(2)] w1(1) show ?case by simp
qed

lemma deep_complete_iff:
  "DeepShelf_shelfIsComplete s \<longleftrightarrow> (\<forall>layer \<in> set (layers s). \<forall>c \<in> set layer. \<forall>p. c \<noteq> Item p)"
  by (auto simp: DeepShelf_shelfIsComplete_def layerIsEmpty_def list_all_iff split: cell.splits)

text \<open>
  C6. A tick of \<open>DeepShelf.update\<close> leaves the number of layers as it was or, when there
  was more than one, removes the top layer and makes the new top layer the products of the
  shelf. So over every sequence of ticks, adds and removes a deep shelf that has a layer
  keeps one, and its current layer \<open>peek(layers)\<close> is defined; the run does not fault when
  the match table knows the id of every product. The shelf is complete exactly when no
  layer holds a product.
\<close>

theorem deep_shelf_keeps_a_layer:
  "(DeepShelf_update dt pressed r w = Inr w1 \<longrightarrow>
      length (layers (store w1 r)) = length (layers (store w r)) \<or>
      (1 < length (layers (store w r)) \<and>
       length (layers (store w1 r)) = length (layers (store w r)) - 1 \<and>
       products (store w1 r) = last (layers (store w1 r)))) \<and>
   (layers (store w r) \<noteq> [] \<and> run_deep ops r w = Inr w' \<longrightarrow>
      layers (store w' r) \<noteq> [] \<and> peek (layers (store w' r)) = Some (last (layers (store w' r)))) \<and>
   (registered (heap w) (stats (level w)) \<longrightarrow> (\<exists>w'. run_deep ops r w = Inr w')) \<and>
   (DeepShelf_shelfIsComplete s
      \<longleftrightarrow> (\<forall>layer \<in> set (layers s). \<forall>c \<in> set layer. \<forall>p. c \<noteq> Item p))"
  using DeepShelf_update_layers[of dt pressed r w w1] run_deep_layers[of ops r w w']
    run_deep_ok[of w ops r] deep_complete_iff[of s]
  by (simp add: peek_def)

lemma two_layers_run: "case run_deep [Tick 1 (\<lambda>p. False), Remove 0, Tick 1 (\<lambda>p. False)] 1 deep_world of Inl e \<Rightarrow> False
   | Inr w' \<Rightarrow> layers (store w' 1) = [[Null, Null, Null]] \<and> products (store w' 1) = [Null, Null, Null]"
  by (simp add: deep_world_def DeepShelf_constructor_def Shelf_constructor_def new_Shelf_def
      blank_world_def no_level_def no_stats_def peek_def DeepShelf_update_def Shelf_update_def
      schedule_disappear_def update_stats_def
      checkForMatches_def findMatchingGroups_def remove_finished_def layerIsEmpty_def
      Shelf_shelfIsComplete_def DeepShelf_shelfIsComplete_def clamp_def
      CHANGING_LAYERS_ANIMATION_TIME_def DeepShelf_removeProductAtIndex_def set_top_def
      js_set_def js_get_def apples_def some_product_def Product_update_def Let_def
      growMatchingGroup.simps matchesProduct_def indexed_def)


theorem deep_shelf_keeps_a_layer_witness:
  "\<exists>w'. run_deep [Tick 1 (\<lambda>p. False), Remove 0, Tick 1 (\<lambda>p. False)] 1 deep_world = Inr w' \<and>
        layers (store w' 1) = [[Null, Null, Null]] \<and>
        products (store w' 1) = [Null, Null, Null] \<and>
        peek (layers (store w' 1)) = Some [Null, Null, Null] \<and>
        DeepShelf_shelfIsComplete (store w' 1)"
proof -
  have reg: "registered (heap deep_world) (stats (level deep_world))"
    by (simp add: registered_def deep_world_def DeepShelf_constructor_def
        Shelf_constructor_def blank_world_def no_level_def no_stats_def apples_def
        some_product_def)
  have ne: "layers (store deep_world 1) \<noteq> []"
    by (simp add: deep_world_def DeepShelf_constructor_def Shelf_constructor_def)
  from deep_shelf_keeps_a_layer [of 1 "\<lambda>p. False" 1 deep_world deep_world
      "[Tick 1 (\<lambda>p. False), Remove 0, Tick 1 (\<lambda>p. False)]" deep_world "store deep_world 1"] reg
  obtain w' where run: "run_deep [Tick 1 (\<lambda>p. False), Remove 0, Tick 1 (\<lambda>p. False)] 1 deep_world = Inr w'"
    by blast
  with two_layers_run have l: "layers (store w' 1) = [[Null, Null, Null]]"
    "products (store w' 1) = [Null, Null, Null]"
    by simp_all
  from deep_shelf_keeps_a_layer [of 1 "\<lambda>p. False" 1 deep_world deep_world
      "[Tick 1 (\<lambda>p. False), Remove 0, Tick 1 (\<lambda>p. False)]" w' "store w' 1"] run ne l
  show ?thesis
    by simp
qed

section \<open>Shelf.update on a match\<close>

text \<open>The update of a product that is not disappearing changes at most its \<open>dragging\<close>
  flag.\<close>

lemma Product_update_idle:
  "\<not> disappearing p \<Longrightarrow>
   Product_update dt grab p = p\<lparr>dragging := dragging (Product_update dt grab p)\<rparr>"
  by (simp add: Product_update_def)

lemma dragging_twice:
  "p1 = p0\<lparr>dragging := x\<rparr> \<Longrightarrow> p2 = p1\<lparr>dragging := y\<rparr> \<Longrightarrow> p2 = p0\<lparr>dragging := y\<rparr>"
  by simp

lemma update_products_idle:
  assumes "\<forall>p i. (Item p, i) \<in> set cs \<longrightarrow> \<not> disappearing (fst hl p)"
  shows "fst (update_products dt pressed st r cs hl) q
         = (fst hl q)\<lparr>dragging := dragging (fst (update_products dt pressed st r cs hl) q)\<rparr>"
  using assms
proof (induction cs arbitrary: hl)
  case Nil
  then show ?case by simp
next
  case (Cons x cs)
  obtain c i where x: "x = (c, i)" by (cases x) auto
  show ?case
  proof (cases c)
    case (Item p)
    let ?grab = "pressed p \<and> canPickUpProductAtIndex st (st r) (int i) \<and> \<not> locked (fst hl p)"
    let ?hl1 = "((fst hl)(p := Product_update dt ?grab (fst hl p)),
                 if ?grab then (snd hl)\<lparr>draggingProduct := Some (r, int i, p)\<rparr> else snd hl)"
    have step: "update_products dt pressed st r (x # cs) hl
                = update_products dt pressed st r cs ?hl1"
      by (simp add: x Item Let_def)
    from Cons.prems have np: "\<not> disappearing (fst hl p)"
      by (auto simp: x Item)
    from Product_update_idle[OF np]
    have up: "Product_update dt ?grab (fst hl p)
              = (fst hl p)\<lparr>dragging := dragging (Product_update dt ?grab (fst hl p))\<rparr>" .
    have one: "fst ?hl1 q' = (fst hl q')\<lparr>dragging := dragging (fst ?hl1 q')\<rparr>" for q'
      using up by (cases "q' = p") simp_all
    have "\<forall>p' i'. (Item p', i') \<in> set cs \<longrightarrow> \<not> disappearing (fst ?hl1 p')"
    proof (intro allI impI)
      fix p' i' assume "(Item p', i') \<in> set cs"
      with Cons.prems have "\<not> disappearing (fst hl p')" by auto
      then show "\<not> disappearing (fst ?hl1 p')"
        by (subst one) simp
    qed
    from Cons.IH[OF this]
    have ih: "fst (update_products dt pressed st r cs ?hl1) q
          = (fst ?hl1 q)\<lparr>dragging := dragging (fst (update_products dt pressed st r cs ?hl1) q)\<rparr>" .
    have "fst (update_products dt pressed st r cs ?hl1) q
          = (fst hl q)\<lparr>dragging := dragging (fst (update_products dt pressed st r cs ?hl1) q)\<rparr>"
      by (rule dragging_twice[OF one ih])
    then show ?thesis
      by (simp only: step)
  next
    case Undefined
    with Cons show ?thesis by (simp add: x)
  next
    case Null
    with Cons show ?thesis by (simp add: x)
  qed
qed

lemma grow_three:
  assumes "distinct [a, b, c]"
    and "matchesProduct (h b) (h a)" "matchesProduct (h c) (h a)" "matchesProduct (h c) (h b)"
  shows "growMatchingGroup h 3 [a] [a, b, c] = [a, b, c]"
proof -
  have 1: "growMatchingGroup h 3 [a, b, c] [a, b, c] = [a, b, c]"
    by (subst growMatchingGroup.simps) simp
  have 2: "growMatchingGroup h 3 [a, b] [a, b, c] = growMatchingGroup h 3 [a, b, c] [a, b, c]"
    using assms by (subst growMatchingGroup.simps) simp
  have 3: "growMatchingGroup h 3 [a] [a, b, c] = growMatchingGroup h 3 [a, b] [a, b, c]"
    using assms by (subst growMatchingGroup.simps) auto
  from 1 2 3 show ?thesis by simp
qed

lemma Shelf_update_found:
  assumes m: "checkForMatches
                (fst (update_products dt pressed (store w) r (indexed (products (store w r)))
                        (heap w, level w)))
                ((store w r)\<lparr>products := map (remove_finished
                    (fst (update_products dt pressed (store w) r
                            (indexed (products (store w r))) (heap w, level w))))
                    (products (store w r))\<rparr>) = (True, Some g)"
    and su: "\<not> statsUpdated (store w r)"
    and rm: "record_matches
               (disappear_all 0 g
                  (fst (update_products dt pressed (store w) r (indexed (products (store w r)))
                          (heap w, level w)))) g
               (stats (level w)) = Inr st'"
  shows "\<exists>w'. Shelf_update dt pressed r w = Inr w' \<and>
           heap w' = disappear_all 0 g
                       (fst (update_products dt pressed (store w) r
                               (indexed (products (store w r))) (heap w, level w))) \<and>
           totalMatches (stats (level w')) = totalMatches st' \<and>
           productMatches (stats (level w')) = productMatches st'"
  using su
  by (simp add: Shelf_update_def schedule_disappear_def update_stats_def Let_def m rm)

text \<open>The flag \<open>finishedDisappearing\<close> is only set on a product that is disappearing.\<close>

lemma finished_only_while_disappearing:
  assumes "finishedDisappearing p \<longrightarrow> disappearing p"
  shows "finishedDisappearing (Product_update dt grab p)
           \<longrightarrow> disappearing (Product_update dt grab p)"
    and "finishedDisappearing (disappear d p) \<longrightarrow> disappearing (disappear d p)"
  using assms by (auto simp: Product_update_def disappear_def Let_def)

text \<open>
  \<open>stats_due\<close> holds of a shelf when it is built, it is kept by every add and remove, and
  it is kept by \<open>Shelf.update\<close> on a shelf of class Shelf that has no more slots than its
  match count: there a found group takes every product that can match.
\<close>

lemma stats_due_placed:
  "stats_due h (new_Shelf k ps sc mc ign ref)"
  "stats_due h s \<Longrightarrow> stats_due h (fst (Shelf_addProductAtIndex s i p))"
  "stats_due h s \<Longrightarrow> stats_due h (fst (Shelf_removeProductAtIndex s i))"
  by (auto simp: stats_due_def new_Shelf_def Shelf_addProductAtIndex_def
      Shelf_removeProductAtIndex_def)

lemma validProducts_filter:
  "validProducts h cs = map (\<lambda>c. case c of Item p \<Rightarrow> p | _ \<Rightarrow> 0)
      (filter (\<lambda>c. case c of Item p \<Rightarrow> \<not> disappearing (h p) | _ \<Rightarrow> False) cs)"
  by (induction h cs rule: validProducts.induct) auto

lemma length_validProducts: "length (validProducts h cs) \<le> length cs"
  by (simp add: validProducts_filter)

lemma disappearing_disappear_all:
  "disappearing (disappear_all i g h p) = (p \<in> set g \<or> disappearing (h p))"
  by (induction g arbitrary: i h) (auto simp: disappear_def)

lemma validProducts_cong:
  "(\<And>p. Item p \<in> set cs \<Longrightarrow> disappearing (h' p) = disappearing (h p)) \<Longrightarrow>
   validProducts h' cs = validProducts h cs"
proof (induction cs)
  case Nil
  then show ?case by simp
next
  case (Cons c cs)
  then show ?case by (cases c) auto
qed

lemma disappearing_update [simp]:
  "disappearing (Product_update dt grab p) = disappearing p"
  by (simp add: Product_update_def Let_def)

lemma disappearing_update_products [simp]:
  "disappearing (fst (update_products dt pressed st r cs hl) p) = disappearing (fst hl p)"
proof (induction cs arbitrary: hl)
  case Nil
  then show ?case by simp
next
  case (Cons x cs)
  obtain c i where x: "x = (c, i)" by (cases x) auto
  show ?case unfolding x by (cases c) (simp_all add: Cons.IH Let_def)
qed

lemma validProducts_remove_finished:
  "set (validProducts h (map (remove_finished h) cs)) \<subseteq> set (validProducts h cs)"
  by (induction cs) (auto simp: remove_finished_def validProducts_set split: cell.splits)

lemma found_group:
  assumes "fst (checkForMatches h s)"
  shows "\<exists>g. snd (checkForMatches h s) = Some g \<and> length g = matchCount s \<and> distinct g \<and>
             set g \<subseteq> set (validProducts h (products s))"
proof -
  let ?vp = "validProducts h (products s)"
  let ?mc = "matchCount s"
  let ?all = "findMatchingGroups h ?mc ?vp"
  from assms have "?all \<noteq> []"
    by (simp add: checkForMatches_def Let_def)
  then obtain g rest where all: "?all = g # rest"
    by (cases ?all) auto
  then have "g \<in> set ?all" by simp
  then obtain p where p: "p \<in> set ?vp" and len: "?mc \<le> length (growMatchingGroup h ?mc [p] ?vp)"
    and g: "g = take ?mc (growMatchingGroup h ?mc [p] ?vp)"
    by (auto simp: findMatchingGroups_def)
  have "later_match h [p]" by (simp add: later_match_def)
  with p have G: "distinct (growMatchingGroup h ?mc [p] ?vp)"
    "set (growMatchingGroup h ?mc [p] ?vp) \<subseteq> set ?vp"
    using grow_inv[of "[p]" ?vp h ?mc] by auto
  have "snd (checkForMatches h s) = Some g"
    using all by (simp add: checkForMatches_def Let_def)
  moreover have "length g = ?mc" using g len by simp
  moreover have "distinct g" using g G(1) by simp
  moreover have "set g \<subseteq> set ?vp" using g G(2) by (auto dest: in_set_takeD)
  ultimately show ?thesis by blast
qed

lemma not_found_on_empty:
  "validProducts h (products s) = [] \<Longrightarrow> checkForMatches h s = (False, None)"
  by (simp add: checkForMatches_def findMatchingGroups_def)

lemma schedule_disappear_result:
  "schedule_disappear m h = Inr h2 \<Longrightarrow>
   h2 = (if fst m then disappear_all 0 (the (snd m)) h else h)"
  by (auto simp: schedule_disappear_def split: if_splits option.splits)

lemma update_stats_result:
  "update_stats m h s st = Inr (s3, st2) \<Longrightarrow>
   products s3 = products s \<and>
   (statsUpdated s3 \<longrightarrow> statsUpdated s \<or> fst m \<or>
      (if kind s = DeepShelf then DeepShelf_shelfIsComplete s else Shelf_shelfIsComplete s))"
  by (auto simp: update_stats_def Let_def Shelf_shelfIsComplete_def DeepShelf_shelfIsComplete_def
      split: if_splits sum.splits option.splits)

lemma complete_no_valid:
  "Shelf_shelfIsComplete s \<Longrightarrow> validProducts h (products s) = []"
proof -
  assume "Shelf_shelfIsComplete s"
  then have "\<forall>c \<in> set (products s). \<forall>p. c \<noteq> Item p"
    by (auto simp: Shelf_shelfIsComplete_def layerIsEmpty_def list_all_iff split: cell.splits)
  then have "set (validProducts h (products s)) = {}"
    by (auto simp: validProducts_set)
  then show ?thesis by simp
qed

lemma stats_due_update:
  assumes run: "Shelf_update dt pressed r w = Inr w'"
    and k: "kind (store w r) \<noteq> DeepShelf"
    and len: "length (products (store w r)) \<le> matchCount (store w r)"
    and inv: "stats_due (heap w) (store w r)"
  shows "stats_due (heap w') (store w' r)"
proof -
  let ?s = "store w r"
  let ?hl = "update_products dt pressed (store w) r (indexed (products ?s)) (heap w, level w)"
  let ?h1 = "fst ?hl"
  let ?s1 = "?s\<lparr>products := map (remove_finished ?h1) (products ?s)\<rparr>"
  let ?m = "checkForMatches ?h1 ?s1"
  let ?v1 = "validProducts ?h1 (products ?s1)"
  from run obtain h2 where sd: "schedule_disappear ?m ?h1 = Inr h2"
    by (cases "schedule_disappear ?m ?h1") (simp_all add: Shelf_update_def Let_def)
  from run sd obtain b where us0: "update_stats ?m h2 ?s1 (stats (snd ?hl)) = Inr b"
    by (cases "update_stats ?m h2 ?s1 (stats (snd ?hl))") (simp_all add: Shelf_update_def Let_def)
  obtain s3 st2 where b: "b = (s3, st2)" by (cases b) auto
  with us0 have us: "update_stats ?m h2 ?s1 (stats (snd ?hl)) = Inr (s3, st2)" by simp
  from run sd us have weq: "w' = w\<lparr>heap := h2, store := (store w)(r := s3),
                                        level := (snd ?hl)\<lparr>stats := st2\<rparr>\<rparr>"
    by (simp add: Shelf_update_def Let_def)
  have w': "heap w' = h2" "store w' r = s3"
    by (simp_all add: weq)
  from schedule_disappear_result[OF sd]
  have h2: "h2 = (if fst ?m then disappear_all 0 (the (snd ?m)) ?h1 else ?h1)" .
  from update_stats_result[OF us] k
  have s3: "products s3 = products ?s1"
    "statsUpdated s3 \<longrightarrow> statsUpdated ?s \<or> fst ?m \<or> Shelf_shelfIsComplete ?s1"
    by simp_all
  have v1sub: "set ?v1 \<subseteq> set (validProducts (heap w) (products ?s))"
  proof -
    have "set ?v1 \<subseteq> set (validProducts ?h1 (products ?s))"
      using validProducts_remove_finished[of ?h1 "products ?s"] by simp
    also have "validProducts ?h1 (products ?s) = validProducts (heap w) (products ?s)"
      by (rule validProducts_cong) simp
    finally show ?thesis .
  qed
  have goal: "validProducts h2 (products ?s1) = []" if su3: "statsUpdated s3"
  proof (cases "fst ?m")
    case True
    from found_group[OF True] obtain g where g: "snd ?m = Some g" "length g = matchCount ?s"
      "distinct g" "set g \<subseteq> set ?v1"
      by auto
    have "length ?v1 \<le> length (products ?s1)" by (rule length_validProducts)
    with len g(2) have le: "length ?v1 \<le> length g" by simp
    have "card (set ?v1) \<le> length ?v1" by (rule card_length)
    moreover have "card (set g) = length g" using g(3) by (simp add: distinct_card)
    ultimately have "card (set ?v1) \<le> card (set g)" using le by simp
    with g(4) have eq: "set g = set ?v1"
      by (simp add: card_seteq)
    have h2g: "h2 = disappear_all 0 g ?h1" using h2 True g(1) by simp
    have "set (validProducts h2 (products ?s1)) = {}"
    proof -
      have "\<not> (Item p \<in> set (products ?s1) \<and> \<not> disappearing (h2 p))" for p
      proof
        assume a: "Item p \<in> set (products ?s1) \<and> \<not> disappearing (h2 p)"
        then have "p \<notin> set g" "\<not> disappearing (?h1 p)"
          by (simp_all add: h2g disappearing_disappear_all)
        with a have "p \<in> set ?v1" by (simp add: validProducts_set)
        with eq \<open>p \<notin> set g\<close> show False by simp
      qed
      then show ?thesis by (simp add: validProducts_set)
    qed
    then show ?thesis by simp
  next
    case False
    then have h21: "h2 = ?h1" using h2 by simp
    from s3(2) su3 False have "statsUpdated ?s \<or> Shelf_shelfIsComplete ?s1" by simp
    then show ?thesis
    proof
      assume "statsUpdated ?s"
      with inv have "validProducts (heap w) (products ?s) = []" by (simp add: stats_due_def)
      with v1sub have "?v1 = []" by simp
      then show ?thesis by (simp add: h21)
    next
      assume "Shelf_shelfIsComplete ?s1"
      from complete_no_valid[OF this] show ?thesis by (simp add: h21)
    qed
  qed
  show ?thesis
    unfolding stats_due_def w' s3(1) using goal by simp
qed

text \<open>
  C8. A shelf with match count 3 holds three distinct products \<open>a\<close>, \<open>b\<close>, \<open>c\<close> in its
  slots 0, 1 and 2; none is disappearing, any two of them match each other, and
  \<open>stats_due\<close> holds of the shelf, as it does from its construction on. Then
  the match of the next tick of \<open>Shelf.update\<close> is found with the group [a, b, c]; the
  three products are set disappearing, not yet started, with the delays 0, 1 and 2 times
  \<open>DISAPPEAR_DELAY\<close>; \<open>totalMatches\<close> grows by 3; and the total of every id grows by the
  number of the three products that have that id, one increment for each product.
\<close>

theorem three_matching_products:
  assumes mc: "matchCount (store w r) = 3"
    and ps: "products (store w r) = [Item a, Item b, Item c]"
    and dist: "distinct [a, b, c]"
    and fresh: "\<forall>x \<in> {a, b, c}. \<not> disappearing (heap w x) \<and> \<not> finishedDisappearing (heap w x)"
    and mutual: "\<forall>x \<in> {a, b, c}. \<forall>y \<in> {a, b, c}. x \<noteq> y \<longrightarrow> matchesProduct (heap w x) (heap w y)"
    and inv: "stats_due (heap w) (store w r)"
    and reg: "\<forall>x \<in> {a, b, c}. product_id (heap w x) \<in> fst ` set (productMatches (stats (level w)))"
  shows "update_match dt pressed r w = (True, Some [a, b, c]) \<and>
    (\<exists>w'. Shelf_update dt pressed r w = Inr w' \<and>
       (\<forall>x \<in> {a, b, c}. disappearing (heap w' x) \<and> \<not> startedDisappearing (heap w' x) \<and>
          \<not> finishedDisappearing (heap w' x) \<and>
          disappearingTime (heap w' x) = DISAPPEARING_ANIMATION_TIME) \<and>
       disappearingDelay (heap w' a) = 0 \<and>
       disappearingDelay (heap w' b) = 1 * DISAPPEAR_DELAY \<and>
       disappearingDelay (heap w' c) = 2 * DISAPPEAR_DELAY \<and>
       totalMatches (stats (level w')) = totalMatches (stats (level w)) + 3 \<and>
       (\<forall>k. total_of k (productMatches (stats (level w')))
            = total_of k (productMatches (stats (level w)))
              + length (filter (\<lambda>x. product_id (heap w x) = k) [a, b, c])))"
proof -
  let ?s = "store w r"
  let ?h = "heap w"
  have "validProducts ?h (products ?s) = [a, b, c]"
    using fresh by (simp add: ps)
  with inv have su: "\<not> statsUpdated ?s"
    by (auto simp: stats_due_def)
  define h1 where "h1 = fst (update_products dt pressed (store w) r (indexed (products ?s))
                               (heap w, level w))"
  have nd: "\<forall>p i. (Item p, i) \<in> set (indexed (products ?s))
              \<longrightarrow> \<not> disappearing (fst (heap w, level w) p)"
    using fresh by (auto simp: ps indexed_def dest!: set_zip_leftD)
  have idle: "h1 q = (?h q)\<lparr>dragging := dragging (h1 q)\<rparr>" for q
    using update_products_idle[OF nd, of dt pressed "store w" r q] by (simp add: h1_def)
  have same: "disappearing (h1 q) = disappearing (?h q)"
    "finishedDisappearing (h1 q) = finishedDisappearing (?h q)"
    "matches (h1 q) = matches (?h q)" "product_id (h1 q) = product_id (?h q)" for q
    by (subst idle, simp)+
  have mp: "matchesProduct (h1 x) (h1 y) = matchesProduct (?h x) (?h y)" for x y
    by (simp add: matchesProduct_def same)
  have rf: "map (remove_finished h1) (products ?s) = products ?s"
    using fresh by (simp add: ps remove_finished_def same)
  have vp: "validProducts h1 (products ?s) = [a, b, c]"
    using fresh by (simp add: ps same)
  have g: "growMatchingGroup h1 3 [a] [a, b, c] = [a, b, c]"
    using dist mutual by (intro grow_three) (auto simp: mp)
  have m: "checkForMatches h1 ?s = (True, Some [a, b, c])"
    by (simp add: checkForMatches_def findMatchingGroups_def vp mc g)
  have m1: "checkForMatches h1 (?s\<lparr>products := map (remove_finished h1) (products ?s)\<rparr>)
            = (True, Some [a, b, c])"
    by (simp only: rf) (simp add: m)
  have um: "update_match dt pressed r w = (True, Some [a, b, c])"
    using m1 by (simp add: update_match_def Let_def h1_def)
  define h2 where "h2 = disappear_all 0 [a, b, c] h1"
  have h2a: "h2 a = disappear 0 (h1 a)" "h2 b = disappear (1 * DISAPPEAR_DELAY) (h1 b)"
    "h2 c = disappear (2 * DISAPPEAR_DELAY) (h1 c)"
    using dist by (auto simp: h2_def)
  have ids: "\<forall>p \<in> set [a, b, c]. product_id (h2 p) \<in> fst ` set (productMatches (stats (level w)))"
    using reg by (simp add: h2_def same)
  from record_matches_ok[OF ids] obtain st' where st':
    "record_matches h2 [a, b, c] (stats (level w)) = Inr st'"
    "totalMatches st' = totalMatches (stats (level w)) + length [a, b, c]"
    "\<forall>k. total_of k (productMatches st')
          = total_of k (productMatches (stats (level w)))
            + length (filter (\<lambda>p. product_id (h2 p) = k) [a, b, c])"
    by blast
  have idh: "product_id (h2 p) = product_id (?h p)" for p
    by (simp add: h2_def same)
  from Shelf_update_found[OF m1[unfolded h1_def] su st'(1)[unfolded h2_def h1_def]]
  obtain w' where w':
    "Shelf_update dt pressed r w = Inr w'"
    "heap w' = h2"
    "totalMatches (stats (level w')) = totalMatches st'"
    "productMatches (stats (level w')) = productMatches st'"
    unfolding h2_def h1_def by blast
  have tm: "totalMatches (stats (level w')) = totalMatches (stats (level w)) + 3"
    using st'(2) w'(3) by simp
  have tot: "\<forall>k. total_of k (productMatches (stats (level w')))
            = total_of k (productMatches (stats (level w)))
              + length (filter (\<lambda>x. product_id (heap w x) = k) [a, b, c])"
    using st'(3) by (simp only: w'(4) idh) simp
  have nda: "\<not> disappearing (h1 a)" "\<not> disappearing (h1 b)" "\<not> disappearing (h1 c)"
    using fresh by (simp_all add: same)
  have flags: "\<forall>x \<in> {a, b, c}. disappearing (heap w' x) \<and> \<not> startedDisappearing (heap w' x) \<and>
          \<not> finishedDisappearing (heap w' x) \<and>
          disappearingTime (heap w' x) = DISAPPEARING_ANIMATION_TIME"
    using nda by (simp add: w'(2) h2a disappear_def)
  have delays: "disappearingDelay (heap w' a) = 0"
    "disappearingDelay (heap w' b) = 1 * DISAPPEAR_DELAY"
    "disappearingDelay (heap w' c) = 2 * DISAPPEAR_DELAY"
    using nda by (simp_all add: w'(2) h2a disappear_def)
  show ?thesis
    using um w'(1) flags delays tm tot by (intro conjI exI[of _ w']) assumption+
qed

theorem three_matching_products_witness:
  "update_match (1 / 60) (\<lambda>p. False) 1 apple_world = (True, Some [0, 1, 2]) \<and>
   (\<exists>w'. Shelf_update (1 / 60) (\<lambda>p. False) 1 apple_world = Inr w' \<and>
      disappearing (heap w' 0) \<and> disappearingDelay (heap w' 0) = 0 \<and>
      disappearing (heap w' 1) \<and> disappearingDelay (heap w' 1) = 2 / 10 \<and>
      disappearing (heap w' 2) \<and> disappearingDelay (heap w' 2) = 4 / 10 \<and>
      totalMatches (stats (level w')) = 3 \<and>
      total_of ''apple'' (productMatches (stats (level w'))) = 3)"
proof -
  have s: "heap apple_world = apples"
    "productMatches (stats (level apple_world)) = [(''apple'', 0, 0)]"
    "totalMatches (stats (level apple_world)) = 0"
    by (simp_all add: apple_world_def Shelf_constructor_def blank_world_def no_level_def
        no_stats_def)
  have hyps: "matchCount (store apple_world 1) = 3"
    "products (store apple_world 1) = [Item 0, Item 1, Item 2]"
    "distinct [0 :: nat, 1, 2]"
    "\<forall>x \<in> {0, 1, 2}. \<not> disappearing (heap apple_world x) \<and>
        \<not> finishedDisappearing (heap apple_world x)"
    "\<forall>x \<in> {0, 1, 2}. \<forall>y \<in> {0, 1, 2}. x \<noteq> y \<longrightarrow>
        matchesProduct (heap apple_world x) (heap apple_world y)"
    "stats_due (heap apple_world) (store apple_world 1)"
    "\<forall>x \<in> {0, 1, 2}. product_id (heap apple_world x)
        \<in> fst ` set (productMatches (stats (level apple_world)))"
    by (simp_all add: apple_world_def Shelf_constructor_def blank_world_def no_level_def
        no_stats_def new_Shelf_def apples_def some_product_def matchesProduct_def
        stats_due_def)
  from three_matching_products [OF hyps, of "1 / 60" "\<lambda>p. False"] show ?thesis
    by (auto simp: s DISAPPEAR_DELAY_def apples_def some_product_def total_of_def)
qed

section \<open>Level.finishDraggingProduct\<close>

lemma patched_False [simp]: "patched st ps False = False"
proof (induction ps)
  case Nil
  then show ?case by simp
next
  case (Cons x ps)
  then show ?case by (cases x) simp_all
qed

lemma sort_key_head:
  assumes "sort_key f xs = y # ys"
  shows "y \<in> set xs \<and> (\<forall>z \<in> set xs. f y \<le> f z)"
proof -
  have "set (sort_key f xs) = set xs" by simp
  with assms have s: "set xs = insert y (set ys)" by simp
  have "sorted (map f (sort_key f xs))" by simp
  with assms have "\<forall>z \<in> set ys. f y \<le> f z" by simp
  with s show ?thesis by auto
qed

lemma sort_key_Nil_iff: "sort_key f xs = [] \<longleftrightarrow> xs = []"
  by (metis length_0_conv length_sort)

lemma Shelf_findShelfSlot_None:
  "Shelf_findShelfSlot st ov ds this = None
   \<longleftrightarrow> \<not> (\<exists>i < slotCount this. canDropProductAtIndex st this (int i) \<and> ov i)"
proof -
  let ?xs = "filter ov (filter (\<lambda>i. canDropProductAtIndex st this (int i)) [0..<slotCount this])"
  have "Shelf_findShelfSlot st ov ds this = None \<longleftrightarrow> sort_key ds ?xs = []"
    by (simp add: Shelf_findShelfSlot_def split: list.splits)
  also have "\<dots> \<longleftrightarrow> ?xs = []" by (rule sort_key_Nil_iff)
  also have "\<dots> \<longleftrightarrow> \<not> (\<exists>i < slotCount this. canDropProductAtIndex st this (int i) \<and> ov i)"
    by (auto simp: filter_empty_conv)
  finally show ?thesis .
qed

lemma Shelf_findShelfSlot_Some:
  assumes "Shelf_findShelfSlot st ov ds this = Some (i, c, d)"
  shows "i < slotCount this \<and> canDropProductAtIndex st this (int i) \<and> ov i \<and> d = ds i \<and>
         (\<forall>j < slotCount this. canDropProductAtIndex st this (int j) \<and> ov j \<longrightarrow> ds i \<le> ds j)"
proof -
  let ?xs = "filter ov (filter (\<lambda>i. canDropProductAtIndex st this (int i)) [0..<slotCount this])"
  from assms obtain ys where ys: "sort_key ds ?xs = i # ys" and d: "d = ds i"
    by (auto simp: Shelf_findShelfSlot_def split: list.splits)
  from sort_key_head[OF ys] have "i \<in> set ?xs" "\<forall>z \<in> set ?xs. ds i \<le> ds z" by auto
  with d show ?thesis by auto
qed

lemma findShelfSlot_None:
  "findShelfSlot st ov ds this = None
   \<longleftrightarrow> \<not> (\<exists>i < slotCount this. canDropProductAtIndex st this (int i) \<and> ov i)"
  by (cases "kind this")
     (simp_all add: findShelfSlot_def Shelf_findShelfSlot_None canDropProductAtIndex_def
        class_canDropProductAtIndex_def)

lemma findShelfSlot_Some:
  assumes "findShelfSlot st ov ds this = Some (i, c, d)"
  shows "i < slotCount this \<and> canDropProductAtIndex st this (int i) \<and> ov i \<and> d = ds i \<and>
         (\<forall>j < slotCount this. canDropProductAtIndex st this (int j) \<and> ov j \<longrightarrow> ds i \<le> ds j)"
proof -
  from assms have "Shelf_findShelfSlot st ov ds this = Some (i, c, d)"
    by (cases "kind this") (simp_all add: findShelfSlot_def)
  then show ?thesis by (rule Shelf_findShelfSlot_Some)
qed

lemma drop_results_member:
  "(s, i, d) \<in> set (drop_results st overlaps dst ss) \<Longrightarrow>
   s \<in> set ss \<and> eligible st overlaps s i \<and> d = dst s i \<and>
   (\<forall>j. eligible st overlaps s j \<longrightarrow> dst s i \<le> dst s j)"
proof (induction ss)
  case Nil
  then show ?case by simp
next
  case (Cons x ss)
  show ?case
  proof (cases "findShelfSlot st (overlaps x) (dst x) (st x)")
    case None
    with Cons show ?thesis by auto
  next
    case (Some t)
    obtain i' c' d' where t: "t = (i', c', d')" by (cases t) auto
    from findShelfSlot_Some[OF Some[unfolded t]]
    have x: "eligible st overlaps x i' \<and> d' = dst x i' \<and>
             (\<forall>j. eligible st overlaps x j \<longrightarrow> dst x i' \<le> dst x j)"
      by (auto simp: eligible_def)
    from Cons.prems Some t have "(s, i, d) = (x, i', d') \<or> (s, i, d) \<in> set (drop_results st overlaps dst ss)"
      by simp
    then show ?thesis
    proof
      assume "(s, i, d) = (x, i', d')"
      with x show ?thesis by simp
    next
      assume "(s, i, d) \<in> set (drop_results st overlaps dst ss)"
      with Cons.IH show ?thesis by simp
    qed
  qed
qed

lemma drop_results_covers:
  "s \<in> set ss \<Longrightarrow> eligible st overlaps s j \<Longrightarrow>
   \<exists>i. (s, i, dst s i) \<in> set (drop_results st overlaps dst ss)"
proof (induction ss)
  case Nil
  then show ?case by simp
next
  case (Cons x ss)
  show ?case
  proof (cases "s = x")
    case True
    with Cons.prems(2) have "findShelfSlot st (overlaps x) (dst x) (st x) \<noteq> None"
      by (auto simp: findShelfSlot_None eligible_def)
    then obtain i c d where f: "findShelfSlot st (overlaps x) (dst x) (st x) = Some (i, c, d)"
      by (cases "findShelfSlot st (overlaps x) (dst x) (st x)") auto
    from findShelfSlot_Some[OF f] have "d = dst x i" by simp
    with f True show ?thesis by auto
  next
    case False
    with Cons obtain i where "(s, i, dst s i) \<in> set (drop_results st overlaps dst ss)" by auto
    then show ?thesis
      by (cases "findShelfSlot st (overlaps x) (dst x) (st x)") auto
  qed
qed

lemma isValidDropPosition_None:
  "isValidDropPosition overlaps dst w = None
   \<longleftrightarrow> (\<forall>s \<in> set (shelves (level w)). \<forall>i. \<not> eligible (store w) overlaps s i)"
proof -
  let ?rs = "drop_results (store w) overlaps dst (shelves (level w))"
  have "isValidDropPosition overlaps dst w = None \<longleftrightarrow> ?rs = []"
    by (auto simp: isValidDropPosition_def sort_key_Nil_iff split: list.splits)
  also have "\<dots> \<longleftrightarrow> (\<forall>s \<in> set (shelves (level w)). \<forall>i. \<not> eligible (store w) overlaps s i)"
  proof
    assume "?rs = []"
    then show "\<forall>s \<in> set (shelves (level w)). \<forall>i. \<not> eligible (store w) overlaps s i"
      using drop_results_covers[of _ "shelves (level w)" "store w" overlaps _ dst] by fastforce
  next
    assume a: "\<forall>s \<in> set (shelves (level w)). \<forall>i. \<not> eligible (store w) overlaps s i"
    show "?rs = []"
    proof (cases ?rs)
      case Nil
      then show ?thesis .
    next
      case (Cons t ts)
      obtain s i d where "t = (s, i, d)" by (cases t) auto
      with Cons have "(s, i, d) \<in> set ?rs" by simp
      from drop_results_member[OF this] a show ?thesis by blast
    qed
  qed
  finally show ?thesis .
qed

lemma isValidDropPosition_Some:
  assumes "isValidDropPosition overlaps dst w = Some (s, i)"
  shows "s \<in> set (shelves (level w)) \<and> eligible (store w) overlaps s i \<and>
         (\<forall>s' \<in> set (shelves (level w)). \<forall>j. eligible (store w) overlaps s' j
             \<longrightarrow> dst s i \<le> dst s' j)"
proof -
  let ?rs = "drop_results (store w) overlaps dst (shelves (level w))"
  let ?key = "\<lambda>(s, slotIndex, distance). distance :: real"
  from assms obtain d ts where hd: "sort_key ?key ?rs = (s, i, d) # ts"
    by (auto simp: isValidDropPosition_def split: list.splits)
  from sort_key_head[OF hd] have mem: "(s, i, d) \<in> set ?rs"
    and least: "\<forall>z \<in> set ?rs. ?key (s, i, d) \<le> ?key z" by auto
  from drop_results_member[OF mem] have 1: "s \<in> set (shelves (level w))"
    "eligible (store w) overlaps s i" "d = dst s i" by auto
  have "dst s i \<le> dst s' j" if s': "s' \<in> set (shelves (level w))"
    and e: "eligible (store w) overlaps s' j" for s' j
  proof -
    from drop_results_covers[OF s' e] obtain k where
      k: "(s', k, dst s' k) \<in> set ?rs" by blast
    from drop_results_member[OF k] e have "dst s' k \<le> dst s' j" by blast
    moreover from least k 1(3) have "dst s i \<le> dst s' k" by auto
    ultimately show ?thesis by simp
  qed
  with 1 show ?thesis by blast
qed


text \<open>
  C2. \<open>Level.finishDraggingProduct\<close> on the release of a dragged product. When no shelf of
  the level has a slot that may take the product and overlaps it, every shelf object is as
  it was: no products array is written, the product stays in the slot it was dragged from.
  When some shelf has such a slot, a destination shelf and slot are chosen among them with
  the least distance; the shelves after the release are those before it with
  \<open>removeProductAtIndex\<close> called once on the origin and then \<open>addProductAtIndex\<close> called
  once on the destination, and every other shelf object is as it was. Without a dragged
  product nothing happens.
\<close>

theorem finishDraggingProduct_frame:
  "(draggingProduct (level w) = None \<longrightarrow> finishDraggingProduct overlaps dst w = w) \<and>
   (draggingProduct (level w) = Some (origin, originSlot, product) \<longrightarrow>
     ((\<forall>s \<in> set (shelves (level w)). \<forall>i. \<not> eligible (store w) overlaps s i) \<longrightarrow>
        store (finishDraggingProduct overlaps dst w) = store w) \<and>
     ((\<exists>s \<in> set (shelves (level w)). \<exists>i. eligible (store w) overlaps s i) \<longrightarrow>
        (\<exists>dest destSlot.
           dest \<in> set (shelves (level w)) \<and> eligible (store w) overlaps dest destSlot \<and>
           (\<forall>s \<in> set (shelves (level w)). \<forall>i. eligible (store w) overlaps s i
               \<longrightarrow> dst dest destSlot \<le> dst s i) \<and>
           store (finishDraggingProduct overlaps dst w) =
             (store w)
               (origin := fst (removeProductAtIndex (store w origin) originSlot),
                dest := fst (addProductAtIndex
                               (((store w)(origin := fst (removeProductAtIndex (store w origin)
                                    originSlot))) dest)
                               (int destSlot) product)) \<and>
           (\<forall>r. r \<noteq> origin \<and> r \<noteq> dest
               \<longrightarrow> store (finishDraggingProduct overlaps dst w) r = store w r))))"
proof (intro conjI impI)
  assume "draggingProduct (level w) = None"
  then show "finishDraggingProduct overlaps dst w = w"
    by (simp add: finishDraggingProduct_def)
next
  assume d: "draggingProduct (level w) = Some (origin, originSlot, product)"
    and n: "\<forall>s \<in> set (shelves (level w)). \<forall>i. \<not> eligible (store w) overlaps s i"
  from n have "isValidDropPosition overlaps dst w = None"
    by (simp add: isValidDropPosition_None)
  with d show "store (finishDraggingProduct overlaps dst w) = store w"
    by (simp add: finishDraggingProduct_def)
next
  assume d: "draggingProduct (level w) = Some (origin, originSlot, product)"
    and e: "\<exists>s \<in> set (shelves (level w)). \<exists>i. eligible (store w) overlaps s i"
  from e have "isValidDropPosition overlaps dst w \<noteq> None"
    by (simp add: isValidDropPosition_None)
  then obtain dest destSlot where v: "isValidDropPosition overlaps dst w = Some (dest, destSlot)"
    by (cases "isValidDropPosition overlaps dst w") auto
  from isValidDropPosition_Some[OF v]
  have 1: "dest \<in> set (shelves (level w))" "eligible (store w) overlaps dest destSlot"
    "\<forall>s \<in> set (shelves (level w)). \<forall>i. eligible (store w) overlaps s i
        \<longrightarrow> dst dest destSlot \<le> dst s i"
    by auto
  have 2: "store (finishDraggingProduct overlaps dst w) =
             (store w)
               (origin := fst (removeProductAtIndex (store w origin) originSlot),
                dest := fst (addProductAtIndex
                               (((store w)(origin := fst (removeProductAtIndex (store w origin)
                                    originSlot))) dest)
                               (int destSlot) product))"
    using d v by (simp add: finishDraggingProduct_def place_def Let_def)
  have 3: "\<forall>r. r \<noteq> origin \<and> r \<noteq> dest
             \<longrightarrow> store (finishDraggingProduct overlaps dst w) r = store w r"
    by (simp add: 2)
  from 1 2 3 show "\<exists>dest destSlot.
           dest \<in> set (shelves (level w)) \<and> eligible (store w) overlaps dest destSlot \<and>
           (\<forall>s \<in> set (shelves (level w)). \<forall>i. eligible (store w) overlaps s i
               \<longrightarrow> dst dest destSlot \<le> dst s i) \<and>
           store (finishDraggingProduct overlaps dst w) =
             (store w)
               (origin := fst (removeProductAtIndex (store w origin) originSlot),
                dest := fst (addProductAtIndex
                               (((store w)(origin := fst (removeProductAtIndex (store w origin)
                                    originSlot))) dest)
                               (int destSlot) product)) \<and>
           (\<forall>r. r \<noteq> origin \<and> r \<noteq> dest
               \<longrightarrow> store (finishDraggingProduct overlaps dst w) r = store w r)"
    by blast
qed

lemma drag_eval:
  "products (store (finishDraggingProduct (\<lambda>s i. s = 2 \<and> i = 1) (\<lambda>s i. 1) drag_world) 1)
     = [Null, Null, Null] \<and>
   products (store (finishDraggingProduct (\<lambda>s i. s = 2 \<and> i = 1) (\<lambda>s i. 1) drag_world) 2)
     = [Null, Item 0, Null]"
  by (simp add: finishDraggingProduct_def isValidDropPosition_def findShelfSlot_def
      Shelf_findShelfSlot_def canDropProductAtIndex_def class_canDropProductAtIndex_def
      Shelf_canDropProductAtIndex_def place_def removeProductAtIndex_def
      Shelf_removeProductAtIndex_def addProductAtIndex_def Shelf_addProductAtIndex_def
      drag_world_def blank_world_def no_level_def no_stats_def new_Shelf_def js_get_def
      js_set_def truthy_def Let_def upt_rec)

theorem finishDraggingProduct_frame_witness:
  "store (finishDraggingProduct (\<lambda>s i. False) (\<lambda>s i. 1) drag_world) = store drag_world \<and>
   products (store (finishDraggingProduct (\<lambda>s i. s = 2 \<and> i = 1) (\<lambda>s i. 1) drag_world) 1)
     = [Null, Null, Null] \<and>
   products (store (finishDraggingProduct (\<lambda>s i. s = 2 \<and> i = 1) (\<lambda>s i. 1) drag_world) 2)
     = [Null, Item 0, Null] \<and>
   store (finishDraggingProduct (\<lambda>s i. s = 2 \<and> i = 1) (\<lambda>s i. 1) drag_world) 3
     = store drag_world 3"
proof -
  have d: "draggingProduct (level drag_world) = Some (1, 0, 0)"
    and sh: "shelves (level drag_world) = [1, 2]"
    by (simp_all add: drag_world_def no_level_def)
  have none: "\<forall>s \<in> set (shelves (level drag_world)). \<forall>i.
                \<not> eligible (store drag_world) (\<lambda>s i. False) s i"
    by (simp add: eligible_def)
  from finishDraggingProduct_frame [of drag_world "\<lambda>s i. False" "\<lambda>s i. 1" 1 0 0] d none
  have a: "store (finishDraggingProduct (\<lambda>s i. False) (\<lambda>s i. 1) drag_world) = store drag_world"
    by blast
  have e: "eligible (store drag_world) (\<lambda>s i. s = 2 \<and> i = 1) 2 1"
    by (simp add: eligible_def canDropProductAtIndex_def class_canDropProductAtIndex_def
        Shelf_canDropProductAtIndex_def drag_world_def blank_world_def new_Shelf_def js_get_def)
  then have some: "\<exists>s \<in> set (shelves (level drag_world)). \<exists>i.
                eligible (store drag_world) (\<lambda>s i. s = 2 \<and> i = 1) s i"
    unfolding sh by auto
  from finishDraggingProduct_frame [of drag_world "\<lambda>s i. s = 2 \<and> i = 1" "\<lambda>s i. 1" 1 0 0]
    d some
  obtain dest destSlot where f:
    "eligible (store drag_world) (\<lambda>s i. s = 2 \<and> i = 1) dest destSlot"
    "\<forall>r. r \<noteq> 1 \<and> r \<noteq> dest \<longrightarrow>
       store (finishDraggingProduct (\<lambda>s i. s = 2 \<and> i = 1) (\<lambda>s i. 1) drag_world) r
         = store drag_world r"
    by blast
  from f(1) have "dest = 2" by (simp add: eligible_def)
  with f(2) have b: "store (finishDraggingProduct (\<lambda>s i. s = 2 \<and> i = 1) (\<lambda>s i. 1) drag_world) 3
                      = store drag_world 3"
    by simp
  from a b drag_eval show ?thesis by simp
qed


end
